theory Spec2Isabelle
  imports Main "HOL-Library.Char_ord" "HOL-Library.List_Lexorder" "HOL-Library.Multiset"
begin

section \<open>Data model (internal/models)\<close>

text \<open>
  Go strings are byte sequences compared bytewise; \<open>string\<close> with the orders of
  \<open>Char_ord\<close> and \<open>List_Lexorder\<close> is the same order.

  A decoded JSON value (\<open>interface{}\<close> as \<open>encoding/json\<close> produces it): \<open>nil\<close>, \<open>bool\<close>,
  \<open>float64\<close>, \<open>string\<close>, \<open>[]interface{}\<close>, \<open>map[string]interface{}\<close>. A number is modelled
  by \<open>JNum n\<close> for a \<open>float64\<close> that holds the integer \<open>n\<close> (the case
  \<open>v == float64(int64(v))\<close> of the renderers), exact for \<open>\<bar>n\<bar> < 2^53\<close>. A Go map is an
  association list with distinct keys; the source never depends on the iteration
  order of a map, it sorts the keys first.
\<close>

datatype jvalue =
    JNull
  | JBool bool
  | JNum int
  | JStr string
  | JArr "jvalue list"
  | JObj "(string \<times> jvalue) list"

type_synonym ChangeAction = string

definition ActionCreate :: ChangeAction where "ActionCreate = ''create''"
definition ActionUpdate :: ChangeAction where "ActionUpdate = ''update''"
definition ActionDelete :: ChangeAction where "ActionDelete = ''delete''"
definition ActionReplace :: ChangeAction where "ActionReplace = ''replace''"
definition ActionRead :: ChangeAction where "ActionRead = ''read''"
definition ActionNoOp :: ChangeAction where "ActionNoOp = ''no-op''"

text \<open>\<open>CommitDate\<close> is kept as the text \<open>CommitDate.Format("2006-01-02 15:04:05")\<close> yields.\<close>

record DriftInfo =
  ResourceName :: string
  FilePath :: string
  CommitID :: string
  BranchName :: string
  AuthorName :: string
  AuthorEmail :: string
  CommitDate :: string
  IsTracked :: bool
  HasUncommittedChanges :: bool
  Error :: string

record Change =
  Actions :: "string list"
  Before :: "(string \<times> jvalue) list"
  After :: "(string \<times> jvalue) list"

text \<open>The \<open>Index\<close> field is an \<open>interface{}\<close>; \<open>JNull\<close> is the nil interface. The
  \<open>DriftInfo\<close> pointer is an option.\<close>

record ResourceChange =
  Address :: string
  Type :: string
  Name :: string
  Module :: string
  Mode :: string
  ProviderName :: string
  Change :: Change
  Action :: ChangeAction
  ActionReason :: string
  Index :: jvalue
  Deposed :: string
  Dependencies :: "string list"
  DriftInfo :: "DriftInfo option"

datatype TreeNode =
  TreeNode (Resource: ResourceChange) (Expanded: bool) (Children: "TreeNode list")
    (Level: int) (RenderedLines: int)

section \<open>Formatting (package fmt)\<close>

definition digit_char :: "nat \<Rightarrow> char" where
  "digit_char d = char_of (48 + d)"

fun digits :: "nat \<Rightarrow> string" where
  "digits n = (if n < 10 then [digit_char n] else digits (n div 10) @ [digit_char (n mod 10)])"

declare digits.simps [simp del]

text \<open>\<open>%d\<close> of an \<open>int64\<close>.\<close>

definition fmt_d :: "int \<Rightarrow> string" where
  "fmt_d n = (if n < 0 then ''-'' @ digits (nat (- n)) else digits (nat n))"

definition strip_zeros :: "string \<Rightarrow> string" where
  "strip_zeros s = rev (dropWhile (\<lambda>c. c = CHR ''0'') (rev s))"

definition pad2 :: "string \<Rightarrow> string" where
  "pad2 s = (if length s < 2 then ''0'' @ s else s)"

text \<open>\<open>%v\<close> of a \<open>float64\<close> holding an integer: the shortest \<open>%g\<close> form, which switches
  to exponent notation from \<open>1e+06\<close> on.\<close>

definition fmt_g :: "int \<Rightarrow> string" where
  "fmt_g n =
     (let ds = digits (nat \<bar>n\<bar>); sign = (if n < 0 then ''-'' else '''') in
      if length ds \<le> 6 then sign @ ds
      else (let m = strip_zeros (tl ds) in
            sign @ [hd ds] @ (if m = [] then [] else ''.'' @ m)
              @ ''e+'' @ pad2 (digits (length ds - 1))))"

fun join :: "string \<Rightarrow> string list \<Rightarrow> string" where
  "join sep [] = []"
| "join sep [x] = x"
| "join sep (x # y # ys) = x @ sep @ join sep (y # ys)"

text \<open>\<open>fmt.Sprintf("%v", v)\<close>: a map prints its entries in key order.\<close>

fun sprint_v :: "jvalue \<Rightarrow> string" where
  "sprint_v JNull = ''<nil>''"
| "sprint_v (JBool b) = (if b then ''true'' else ''false'')"
| "sprint_v (JNum n) = fmt_g n"
| "sprint_v (JStr s) = s"
| "sprint_v (JArr xs) = ''['' @ join '' '' (map sprint_v xs) @ '']''"
| "sprint_v (JObj kvs) =
     ''map['' @ join '' '' (map (\<lambda>(k, s). k @ '':'' @ s)
        (sort_key fst (map (\<lambda>(k, v). (k, sprint_v v)) kvs))) @ '']''"

section \<open>Grouping / tree builder (internal/tui)\<close>

fun split_on :: "char \<Rightarrow> string \<Rightarrow> string list" where
  "split_on c [] = [[]]"
| "split_on c (x # xs) =
     (if x = c then [] # split_on c xs
      else (case split_on c xs of [] \<Rightarrow> [[x]] | p # ps \<Rightarrow> (x # p) # ps))"

definition getResourceFileName :: "ResourceChange \<Rightarrow> string" where
  "getResourceFileName res =
     (case DriftInfo res of
        Some d \<Rightarrow>
          (if FilePath d \<noteq> '''' then last (split_on CHR ''/'' (FilePath d))
           else ''unknown.tf'')
      | None \<Rightarrow> ''unknown.tf'')"

definition indexMatches :: "jvalue \<Rightarrow> jvalue \<Rightarrow> bool" where
  "indexMatches idx1 idx2 =
     (if idx1 = JNull \<and> idx2 = JNull then True
      else if idx1 = JNull \<or> idx2 = JNull then False
      else sprint_v idx1 = sprint_v idx2)"

fun findReplacementFile :: "ResourceChange \<Rightarrow> ResourceChange list \<Rightarrow> string" where
  "findReplacementFile deletedRes [] = ''''"
| "findReplacementFile deletedRes (res # allResources) =
     (if Action res = ActionCreate \<and> Type res = Type deletedRes
         \<and> indexMatches (Index res) (Index deletedRes)
         \<and> getResourceFileName res \<noteq> ''unknown.tf''
      then getResourceFileName res
      else findReplacementFile deletedRes allResources)"

text \<open>\<open>m[k] = append(m[k], v)\<close> on a map of slices, the map kept as an association
  list with distinct keys; \<open>lookup\<close> reads \<open>m[k]\<close> (the nil slice when absent).\<close>

fun append_to :: "(string \<times> 'a list) list \<Rightarrow> string \<Rightarrow> 'a \<Rightarrow> (string \<times> 'a list) list" where
  "append_to [] k v = [(k, [v])]"
| "append_to ((k', vs) # g) k v =
     (if k' = k then (k', vs @ [v]) # g else (k', vs) # append_to g k v)"

definition lookup :: "(string \<times> 'a list) list \<Rightarrow> string \<Rightarrow> 'a list" where
  "lookup g k = (case map_of g k of None \<Rightarrow> [] | Some vs \<Rightarrow> vs)"

definition leafNode :: "int \<Rightarrow> ResourceChange \<Rightarrow> TreeNode" where
  "leafNode lvl res = TreeNode res False [] lvl 0"

definition groupResource :: "string \<Rightarrow> string \<Rightarrow> string \<Rightarrow> ResourceChange \<Rightarrow> ResourceChange" where
  "groupResource kind name modl firstRes =
     \<lparr> Address = name, Type = kind, Name = name, Module = modl, Mode = kind,
       ProviderName = ProviderName firstRes,
       Change = \<lparr> Actions = [''no-op''], Before = [], After = [] \<rparr>,
       Action = ActionNoOp, ActionReason = '''', Index = JNull, Deposed = '''',
       Dependencies = [], DriftInfo = None \<rparr>"

definition fileNode :: "string \<Rightarrow> ResourceChange list \<Rightarrow> TreeNode" where
  "fileNode fileName fileResources =
     TreeNode (groupResource ''file'' fileName ''root'' (hd fileResources)) False
       (map (leafNode 1) fileResources) 0 0"

definition moduleNode :: "string \<Rightarrow> ResourceChange list \<Rightarrow> TreeNode" where
  "moduleNode moduleName moduleResources =
     TreeNode (groupResource ''module'' moduleName moduleName (hd moduleResources)) False
       (map (leafNode 1) moduleResources) 0 0"

text \<open>First pass over the root module: group by file, keep the rest ungrouped.\<close>

definition firstPass ::
  "ResourceChange list \<Rightarrow> (string \<times> ResourceChange list) list \<times> ResourceChange list" where
  "firstPass moduleResources =
     foldl (\<lambda>(fileGroups, ungrouped) res.
              if getResourceFileName res = ''unknown.tf'' then (fileGroups, ungrouped @ [res])
              else (append_to fileGroups (getResourceFileName res) res, ungrouped))
       ([], []) moduleResources"

text \<open>Second pass: an ungrouped delete joins the file of its replacement.\<close>

definition secondPass ::
  "ResourceChange list \<Rightarrow> (string \<times> ResourceChange list) list \<Rightarrow> ResourceChange list \<Rightarrow>
     (string \<times> ResourceChange list) list \<times> ResourceChange list" where
  "secondPass moduleResources fileGroups ungrouped =
     foldl (\<lambda>(fg, remaining) res.
              if Action res = ActionDelete then
                (if findReplacementFile res moduleResources \<noteq> ''''
                 then (append_to fg (findReplacementFile res moduleResources) res, remaining)
                 else (fg, remaining @ [res]))
              else (fg, remaining @ [res]))
       (fileGroups, []) ungrouped"

definition rootNodes :: "ResourceChange list \<Rightarrow> TreeNode list" where
  "rootNodes moduleResources =
     (let (fg1, ug1) = firstPass moduleResources;
          (fileGroups, ungroupedResources) = secondPass moduleResources fg1 ug1;
          fileNames = sort (map fst fileGroups)
      in concat (map (\<lambda>fileName.
                   let fileResources = lookup fileGroups fileName in
                   if length fileGroups = 1 \<and> length ungroupedResources = 0
                   then map (leafNode 0) fileResources
                   else if length fileResources > 0 then [fileNode fileName fileResources]
                   else []) fileNames)
         @ map (leafNode 0) ungroupedResources)"

definition moduleKey :: "ResourceChange \<Rightarrow> string" where
  "moduleKey res = (if Module res = '''' then ''root'' else Module res)"

definition moduleGroupsOf :: "ResourceChange list \<Rightarrow> (string \<times> ResourceChange list) list" where
  "moduleGroupsOf changingResources =
     foldl (\<lambda>g res. append_to g (moduleKey res) res) [] changingResources"

text \<open>\<open>sort.Slice\<close> by address is not stable; \<open>sort_key\<close> is one of its possible results,
  and the only one when the addresses of a module are distinct.\<close>

definition moduleNodes :: "string \<Rightarrow> ResourceChange list \<Rightarrow> TreeNode list" where
  "moduleNodes moduleName moduleResources =
     (if moduleName = ''root'' then rootNodes moduleResources
      else if length moduleResources > 0 then [moduleNode moduleName moduleResources]
      else [])"

definition buildTreeNodes :: "ResourceChange list \<Rightarrow> TreeNode list" where
  "buildTreeNodes resources =
     (let changingResources = filter (\<lambda>res. Action res \<noteq> ActionNoOp) resources;
          moduleGroups = moduleGroupsOf changingResources;
          moduleNames = sort (map fst moduleGroups)
      in concat (map (\<lambda>moduleName.
                   moduleNodes moduleName (sort_key Address (lookup moduleGroups moduleName)))
                 moduleNames))"

subsection \<open>The builder with its allocations\<close>

text \<open>
  Node objects. Every \<open>&TreeNode{...}\<close> of the builder allocates a new object; here an
  object is named by its allocation number, and the builder threads the number of the
  next allocation through its loops. \<open>erase\<close> forgets the numbers, \<open>idents\<close> lists the
  objects of a node depth-first.
\<close>

datatype LNode =
  LNode (ident: nat) (lResource: ResourceChange) (lExpanded: bool) (lChildren: "LNode list")
    (lLevel: int) (lRenderedLines: int)

fun erase :: "LNode \<Rightarrow> TreeNode" where
  "erase (LNode i r e cs l rl) = TreeNode r e (map erase cs) l rl"

fun idents :: "LNode \<Rightarrow> nat list" where
  "idents (LNode i r e cs l rl) = i # concat (map idents cs)"

definition newLeaves :: "int \<Rightarrow> ResourceChange list \<Rightarrow> LNode list \<times> nat \<Rightarrow> LNode list \<times> nat" where
  "newLeaves lvl rs st =
     foldl (\<lambda>(ns, next) res. (ns @ [LNode next res False [] lvl 0], Suc next)) st rs"

definition newGroup ::
  "ResourceChange \<Rightarrow> ResourceChange list \<Rightarrow> LNode list \<times> nat \<Rightarrow> LNode list \<times> nat" where
  "newGroup header rs st =
     (case st of (ns, next) \<Rightarrow>
        (case newLeaves 1 rs ([], Suc next) of (children, next') \<Rightarrow>
           (ns @ [LNode next header False children 0 0], next')))"

definition rootNodesL :: "ResourceChange list \<Rightarrow> LNode list \<times> nat \<Rightarrow> LNode list \<times> nat" where
  "rootNodesL moduleResources st =
     (let (fg1, ug1) = firstPass moduleResources;
          (fileGroups, ungroupedResources) = secondPass moduleResources fg1 ug1;
          fileNames = sort (map fst fileGroups);
          st1 = foldl (\<lambda>st fileName.
                   let fileResources = lookup fileGroups fileName in
                   if length fileGroups = 1 \<and> length ungroupedResources = 0
                   then newLeaves 0 fileResources st
                   else if length fileResources > 0
                   then newGroup (groupResource ''file'' fileName ''root'' (hd fileResources))
                          fileResources st
                   else st) st fileNames
      in newLeaves 0 ungroupedResources st1)"

definition moduleNodesL ::
  "string \<Rightarrow> ResourceChange list \<Rightarrow> LNode list \<times> nat \<Rightarrow> LNode list \<times> nat" where
  "moduleNodesL moduleName moduleResources st =
     (if moduleName = ''root'' then rootNodesL moduleResources st
      else if length moduleResources > 0
      then newGroup (groupResource ''module'' moduleName moduleName (hd moduleResources))
             moduleResources st
      else st)"

definition buildTreeNodesL :: "ResourceChange list \<Rightarrow> LNode list \<times> nat" where
  "buildTreeNodesL resources =
     (let changingResources = filter (\<lambda>res. Action res \<noteq> ActionNoOp) resources;
          moduleGroups = moduleGroupsOf changingResources;
          moduleNames = sort (map fst moduleGroups)
      in foldl (\<lambda>st moduleName.
                  moduleNodesL moduleName (sort_key Address (lookup moduleGroups moduleName)) st)
           ([], 0) moduleNames)"

section \<open>Rendering (internal/tui)\<close>

text \<open>
  What the renderers take from libraries is a parameter: \<open>quote\<close> is \<open>%q\<close>
  (\<open>strconv.Quote\<close>), the styles are the \<open>Render\<close> methods of the package's lipgloss
  styles (\<open>warnStyle\<close> is the local style of the uncommitted-changes line), and
  \<open>tryPrettyJSON\<close> is the method of that name, which re-indents a JSON text with
  \<open>encoding/json\<close> and wraps any other text. A \<open>strings.Builder\<close> is the text written
  to it.
\<close>

record lib =
  quote :: "string \<Rightarrow> string"
  tryPrettyJSON :: "string \<Rightarrow> string"
  createStyle :: "string \<Rightarrow> string"
  updateStyle :: "string \<Rightarrow> string"
  deleteStyle :: "string \<Rightarrow> string"
  replaceStyle :: "string \<Rightarrow> string"
  noopStyle :: "string \<Rightarrow> string"
  attributeStyle :: "string \<Rightarrow> string"
  valueAddStyle :: "string \<Rightarrow> string"
  valueRemStyle :: "string \<Rightarrow> string"
  warnStyle :: "string \<Rightarrow> string"

abbreviation nl :: string where "nl \<equiv> [CHR 0x0A]"

text \<open>The arrow and the bar of the source are three bytes each in UTF-8.\<close>

abbreviation arrow :: string where "arrow \<equiv> [CHR 0x20, CHR 0xE2, CHR 0x86, CHR 0x92, CHR 0x20]"
abbreviation bar :: string where "bar \<equiv> [CHR 0x20, CHR 0xE2, CHR 0x94, CHR 0x82, CHR 0x20]"

definition fmt_t :: "bool \<Rightarrow> string" where
  "fmt_t b = (if b then ''true'' else ''false'')"

text \<open>\<open>%-5s\<close>: left-justified in a field of the given width.\<close>

definition pad_right :: "nat \<Rightarrow> string \<Rightarrow> string" where
  "pad_right w s = s @ replicate (w - length s) CHR '' ''"

definition getActionStyle :: "lib \<Rightarrow> string \<Rightarrow> string \<Rightarrow> string" where
  "getActionStyle l action =
     (if action = ''create'' then createStyle l
      else if action = ''update'' then updateStyle l
      else if action = ''delete'' then deleteStyle l
      else if action = ''replace'' then replaceStyle l
      else noopStyle l)"

function renderValue ::
  "lib \<Rightarrow> (string \<Rightarrow> string) \<Rightarrow> string \<Rightarrow> string \<Rightarrow> jvalue \<Rightarrow> int \<Rightarrow> string" where
  "renderValue l style indent key val depth =
     (if depth > 5 then style (indent @ key @ '' = <deeply nested>'' @ nl)
      else case val of
        JObj v \<Rightarrow>
          (if length v = 0 then style (indent @ key @ '' = {}'' @ nl)
           else style (indent @ key @ '' = {'' @ nl)
                @ concat (map (\<lambda>(nk, x). renderValue l style (indent @ ''  '') nk x (depth + 1))
                            (sort_key fst v))
                @ style (indent @ ''}'' @ nl))
      | JArr v \<Rightarrow>
          (if length v = 0 then style (indent @ key @ '' = []'' @ nl)
           else style (indent @ key @ '' = ['' @ nl)
                @ concat (map (\<lambda>(i, item). renderValue l style (indent @ ''  '')
                                 (''['' @ fmt_d (int i) @ '']'') item (depth + 1))
                            (enumerate 0 v))
                @ style (indent @ '']'' @ nl))
      | JStr v \<Rightarrow> style (indent @ key @ '' = '' @ quote l v @ nl)
      | JNull \<Rightarrow> style (indent @ key @ '' = null'' @ nl)
      | JBool v \<Rightarrow> style (indent @ key @ '' = '' @ fmt_t v @ nl)
      | JNum v \<Rightarrow> style (indent @ key @ '' = '' @ fmt_d v @ nl))"
  by pat_completeness auto
termination
  by (relation "measure (\<lambda>(l, style, indent, key, val, depth). nat (6 - depth))") auto

declare renderValue.simps [simp del]

definition renderAttributes ::
  "lib \<Rightarrow> string \<Rightarrow> (string \<times> jvalue) list \<Rightarrow> string \<Rightarrow> (string \<Rightarrow> string) \<Rightarrow> string" where
  "renderAttributes l baseIndent attrs subIndent actionStyle =
     concat (map (\<lambda>(k, v). renderValue l actionStyle baseIndent k v 0) (sort_key fst attrs))"

function renderDiffValue ::
  "lib \<Rightarrow> string \<Rightarrow> string \<Rightarrow> string \<Rightarrow> jvalue \<Rightarrow> (string \<Rightarrow> string) \<Rightarrow> int \<Rightarrow> string" where
  "renderDiffValue l indent prefix key val style depth =
     (if depth > 5
      then attributeStyle l (indent @ ''  '' @ prefix @ '' '' @ key @ '' = <deeply nested>'' @ nl)
      else case val of
        JObj v \<Rightarrow>
          (if length v = 0
           then attributeStyle l (indent @ ''  '' @ prefix @ '' '' @ key @ '' = '') @ style ''{}'' @ nl
           else attributeStyle l (indent @ ''  '' @ prefix @ '' '' @ key @ '' = {'' @ nl)
                @ concat (map (\<lambda>(nk, x). renderDiffValue l (indent @ ''  '') prefix nk x style (depth + 1))
                            (sort_key fst v))
                @ attributeStyle l (indent @ ''  '' @ prefix @ '' }'' @ nl))
      | JArr v \<Rightarrow>
          (if length v = 0
           then attributeStyle l (indent @ ''  '' @ prefix @ '' '' @ key @ '' = '') @ style ''[]'' @ nl
           else attributeStyle l (indent @ ''  '' @ prefix @ '' '' @ key @ '' = ['' @ nl)
                @ concat (map (\<lambda>(i, item). renderDiffValue l (indent @ ''  '') prefix
                                 (''['' @ fmt_d (int i) @ '']'') item style (depth + 1))
                            (enumerate 0 v))
                @ attributeStyle l (indent @ ''  '' @ prefix @ '' ]'' @ nl))
      | JStr v \<Rightarrow>
          attributeStyle l (indent @ ''  '' @ prefix @ '' '' @ key @ '' = '') @ style (quote l v) @ nl
      | JNull \<Rightarrow>
          attributeStyle l (indent @ ''  '' @ prefix @ '' '' @ key @ '' = '') @ style ''null'' @ nl
      | JBool v \<Rightarrow>
          attributeStyle l (indent @ ''  '' @ prefix @ '' '' @ key @ '' = '') @ style (fmt_t v) @ nl
      | JNum v \<Rightarrow>
          attributeStyle l (indent @ ''  '' @ prefix @ '' '' @ key @ '' = '') @ style (fmt_d v) @ nl)"
  by pat_completeness auto
termination
  by (relation "measure (\<lambda>(l, indent, prefix, key, val, style, depth). nat (6 - depth))") auto

declare renderDiffValue.simps [simp del]

definition renderSideBySideDiff :: "lib \<Rightarrow> string \<Rightarrow> string list \<Rightarrow> string list \<Rightarrow> string" where
  "renderSideBySideDiff l indent beforeLines afterLines =
     (let maxLineWidth = foldl (\<lambda>w line. if length line > w then length line else w) 0 beforeLines;
          maxLines = (if length afterLines > length beforeLines then length afterLines
                      else length beforeLines)
      in concat (map (\<lambda>i.
           let beforeLine = (if i < length beforeLines then beforeLines ! i else '''');
               afterLine = (if i < length afterLines then afterLines ! i else '''');
               paddingNeeded = maxLineWidth - length beforeLine
           in indent @ valueRemStyle l beforeLine @ replicate paddingNeeded CHR '' ''
              @ bar @ valueAddStyle l afterLine @ nl) [0..<maxLines]))"

text \<open>The scalar of the inline form of a changed attribute; \<open>str\<close> is its \<open>%v\<close> text.\<close>

definition inlineValue :: "lib \<Rightarrow> (string \<Rightarrow> string) \<Rightarrow> jvalue \<Rightarrow> string \<Rightarrow> string" where
  "inlineValue l style val str =
     (case val of
        JStr v \<Rightarrow> style (quote l v)
      | JNull \<Rightarrow> style ''null''
      | JBool v \<Rightarrow> style (fmt_t v)
      | JNum v \<Rightarrow> style (fmt_d v)
      | _ \<Rightarrow> style (if length str > 60 then take 57 str @ ''...'' else str))"

definition renderDiffComparison ::
  "lib \<Rightarrow> string \<Rightarrow> string \<Rightarrow> jvalue \<Rightarrow> jvalue \<Rightarrow> int \<Rightarrow> string" where
  "renderDiffComparison l indent key before after depth =
     (if depth > 5 then attributeStyle l (indent @ ''  ~ '' @ key @ '' = <deeply nested>'' @ nl)
      else
        let beforeStr = sprint_v before; afterStr = sprint_v after in
        if beforeStr = afterStr then ''''
        else case (before, after) of
          (JStr beforeString, JStr afterString) \<Rightarrow>
            (if length beforeString > 60 \<or> length afterString > 60
             then indent @ attributeStyle l (''  ~ '' @ key @ '':'' @ nl)
                  @ renderSideBySideDiff l indent
                      (split_on CHR 0x0A (tryPrettyJSON l beforeString))
                      (split_on CHR 0x0A (tryPrettyJSON l afterString))
             else attributeStyle l (indent @ ''  ~ '' @ key @ '': '')
                  @ inlineValue l (valueRemStyle l) before beforeStr
                  @ attributeStyle l arrow
                  @ inlineValue l (valueAddStyle l) after afterStr @ nl)
        | _ \<Rightarrow>
            attributeStyle l (indent @ ''  ~ '' @ key @ '': '')
            @ inlineValue l (valueRemStyle l) before beforeStr
            @ attributeStyle l arrow
            @ inlineValue l (valueAddStyle l) after afterStr @ nl)"

definition renderAttributeDiff ::
  "lib \<Rightarrow> string \<Rightarrow> (string \<times> jvalue) list \<Rightarrow> (string \<times> jvalue) list \<Rightarrow> string" where
  "renderAttributeDiff l baseIndent before after =
     (let keys = sort (remdups (map fst before @ map fst after)) in
      concat (map (\<lambda>k.
        case (map_of before k, map_of after k) of
          (None, Some afterVal) \<Rightarrow> renderDiffValue l baseIndent ''+'' k afterVal (valueAddStyle l) 0
        | (Some beforeVal, None) \<Rightarrow> renderDiffValue l baseIndent ''-'' k beforeVal (valueRemStyle l) 0
        | (Some beforeVal, Some afterVal) \<Rightarrow> renderDiffComparison l baseIndent k beforeVal afterVal 0
        | (None, None) \<Rightarrow> renderDiffComparison l baseIndent k JNull JNull 0) keys))"

definition IsValid :: "DriftInfo \<Rightarrow> bool" where
  "IsValid d \<longleftrightarrow> Error d = '''' \<and> IsTracked d"

definition ShortCommitID :: "DriftInfo \<Rightarrow> string" where
  "ShortCommitID d = (if length (CommitID d) \<ge> 8 then take 8 (CommitID d) else CommitID d)"

definition renderFileInformation :: "lib \<Rightarrow> string \<Rightarrow> (string \<Rightarrow> string) \<Rightarrow> DriftInfo \<Rightarrow> string" where
  "renderFileInformation l indent actionStyle d =
     nl @ indent @ actionStyle (''File Information:'' @ nl)
     @ (if IsValid d then
          indent @ ''  '' @ actionStyle (pad_right 5 ''File:'' @ '' '' @ pad_right 80 (FilePath d) @ '' ''
                                      @ pad_right 7 ''Commit:'' @ '' '' @ ShortCommitID d @ nl)
          @ indent @ ''  '' @ actionStyle (pad_right 5 ''Branch:'' @ '' '' @ BranchName d @ nl)
          @ indent @ ''  '' @ actionStyle (pad_right 5 ''Author:'' @ '' '' @ AuthorName d
                                        @ '' <'' @ AuthorEmail d @ ''>'' @ nl)
          @ indent @ ''  '' @ actionStyle (pad_right 5 ''Date:'' @ '' '' @ CommitDate d @ nl)
        else indent @ ''  '' @ actionStyle (pad_right 5 ''File:'' @ '' '' @ FilePath d @ nl))
     @ (if HasUncommittedChanges d
        then indent @ ''  '' @ warnStyle l (pad_right 5 ''Status:'' @ '' Has uncommitted changes'' @ nl)
        else '''')
     @ nl"

definition renderResourceDetails :: "lib \<Rightarrow> TreeNode \<Rightarrow> string" where
  "renderResourceDetails l node =
     (let indent = ''    ''; res = Resource node; action = Action res;
          actionStyle = getActionStyle l action
      in indent @ actionStyle (pad_right 5 ''Type:'' @ '' '' @ Type res @ nl)
         @ indent @ actionStyle (pad_right 5 ''Provider:'' @ '' '' @ ProviderName res @ nl)
         @ indent @ actionStyle (pad_right 5 ''Mode:'' @ '' '' @ Mode res @ nl)
         @ (case DriftInfo res of
              Some d \<Rightarrow> (if FilePath d \<noteq> '''' then renderFileInformation l indent actionStyle d else '''')
            | None \<Rightarrow> '''')
         @ (if action = ''create''
            then renderAttributes l indent (After (Change res)) ''  '' actionStyle
            else if action = ''delete''
            then renderAttributes l indent (Before (Change res)) ''  '' actionStyle
            else if action = ''update'' \<or> action = ''replace''
            then renderAttributeDiff l indent (Before (Change res)) (After (Change res))
            else '''')
         @ nl)"

section \<open>Navigation and viewport (internal/tui)\<close>

text \<open>
  The model of the TUI. The \<open>plan\<close> field only feeds the tab bar and the error and
  warning views and is left out. Go's \<open>int\<close> is \<open>int\<close>: the cursor and the offsets stay
  far from the 64-bit bounds. The nodes are shared by pointer between the copies of
  the model that \<open>Update\<close> returns; here the forest is part of the state, and a write
  through \<open>visibleNodes[i]\<close> is a write at the place of the forest that
  \<open>getVisibleNodes\<close> read.
\<close>

record Model =
  nodes :: "TreeNode list"
  cursor :: int
  viewMode :: int
  viewportTop :: int
  viewportSize :: int
  width :: int
  height :: int

datatype Msg = WindowSizeMsg int int | KeyMsg string

datatype Cmd = NoCmd | Quit

datatype panic = IndexOutOfRange

definition NewModel :: "ResourceChange list \<Rightarrow> Model" where
  "NewModel resources =
     \<lparr> nodes = buildTreeNodes resources, cursor = 0, viewMode = 0, viewportTop = 0,
       viewportSize = 20, width = 80, height = 24 \<rparr>"

definition shownChildren :: "TreeNode \<Rightarrow> TreeNode list" where
  "shownChildren node = (if Expanded node \<and> length (Children node) > 0 then Children node else [])"

definition getVisibleNodes :: "TreeNode list \<Rightarrow> TreeNode list" where
  "getVisibleNodes ns = concat (map (\<lambda>node. node # shownChildren node) ns)"

definition setExpanded :: "bool \<Rightarrow> TreeNode \<Rightarrow> TreeNode" where
  "setExpanded b node =
     TreeNode (Resource node) b (Children node) (Level node) (RenderedLines node)"

text \<open>\<open>visibleNodes[i].Expanded = !visibleNodes[i].Expanded\<close> for an index \<open>i\<close> in range:
  the walk of \<open>getVisibleNodes\<close>, to the node that stands at place \<open>i\<close>.\<close>

fun toggleVisible :: "nat \<Rightarrow> TreeNode list \<Rightarrow> TreeNode list" where
  "toggleVisible i [] = []"
| "toggleVisible i (node # ns) =
     (if i = 0 then setExpanded (\<not> Expanded node) node # ns
      else if i - 1 < length (shownChildren node)
      then TreeNode (Resource node) (Expanded node)
             ((Children node)[i - 1 := setExpanded (\<not> Expanded (Children node ! (i - 1)))
                                         (Children node ! (i - 1))])
             (Level node) (RenderedLines node) # ns
      else node # toggleVisible (i - 1 - length (shownChildren node)) ns)"

text \<open>The lines a node takes: its own line and, when expanded, the lines of its details.\<close>

definition nodeLines :: "lib \<Rightarrow> TreeNode \<Rightarrow> int" where
  "nodeLines l node =
     1 + (if Expanded node \<and> (Level node = 0 \<or> Type (Resource node) \<noteq> ''module'')
          then (let details = renderResourceDetails l node in
                if details \<noteq> '''' then int (count_list details CHR 0x0A) else 0)
          else 0)"

definition adjustViewport :: "lib \<Rightarrow> Model \<Rightarrow> Model" where
  "adjustViewport l m =
     (let visibleNodes = getVisibleNodes (nodes m) in
      if length visibleNodes = 0 then m\<lparr> viewportTop := 0 \<rparr>
      else
        let c1 = (if cursor m \<ge> int (length visibleNodes) then int (length visibleNodes) - 1
                  else cursor m);
            c = (if c1 < 0 then 0 else c1);
            cursorLineStart = sum_list (map (nodeLines l) (take (nat c) visibleNodes));
            currentNodeLines = nodeLines l (visibleNodes ! nat c);
            cursorLineEnd = cursorLineStart + currentNodeLines - 1;
            top = (if cursorLineStart < viewportTop m then cursorLineStart
                   else if cursorLineEnd \<ge> viewportTop m + viewportSize m
                   then (if currentNodeLines \<le> viewportSize m
                         then cursorLineEnd - viewportSize m + 1
                         else cursorLineStart)
                   else viewportTop m)
        in m\<lparr> cursor := c, viewportTop := (if top < 0 then 0 else top) \<rparr>)"

definition Update :: "lib \<Rightarrow> Model \<Rightarrow> Msg \<Rightarrow> panic + Model \<times> Cmd" where
  "Update l m msg =
     (case msg of
        WindowSizeMsg w h \<Rightarrow> Inr (m\<lparr> width := w, height := h, viewportSize := h - 10 \<rparr>, NoCmd)
      | KeyMsg k \<Rightarrow>
          if k = ''ctrl+c'' \<or> k = ''q'' then Inr (m, Quit)
          else if k = ''up'' \<or> k = ''k'' then
            (if cursor m > 0 then Inr (adjustViewport l (m\<lparr> cursor := cursor m - 1 \<rparr>), NoCmd)
             else Inr (m, NoCmd))
          else if k = ''down'' \<or> k = ''j'' then
            (if cursor m < int (length (getVisibleNodes (nodes m))) - 1
             then Inr (adjustViewport l (m\<lparr> cursor := cursor m + 1 \<rparr>), NoCmd)
             else Inr (m, NoCmd))
          else if k = ''enter'' \<or> k = '' '' then
            (if cursor m < int (length (getVisibleNodes (nodes m))) then
               (if cursor m < 0 then Inl IndexOutOfRange
                else Inr (adjustViewport l
                            (m\<lparr> nodes := toggleVisible (nat (cursor m)) (nodes m) \<rparr>), NoCmd))
             else Inr (m, NoCmd))
          else if k = ''tab'' then
            Inr (m\<lparr> viewMode := (viewMode m + 1) mod 3, cursor := 0, viewportTop := 0 \<rparr>, NoCmd)
          else if k = ''shift+tab'' then
            Inr (m\<lparr> viewMode := (if viewMode m = 0 then 2 else viewMode m - 1),
                    cursor := 0, viewportTop := 0 \<rparr>, NoCmd)
          else if k = ''g'' then Inr (m\<lparr> cursor := 0, viewportTop := 0 \<rparr>, NoCmd)
          else if k = ''G'' then
            Inr (adjustViewport l
                   (m\<lparr> cursor := int (length (getVisibleNodes (nodes m))) - 1 \<rparr>), NoCmd)
          else if k = ''e'' then Inr (m\<lparr> nodes := map (setExpanded True) (nodes m) \<rparr>, NoCmd)
          else if k = ''c'' then Inr (m\<lparr> nodes := map (setExpanded False) (nodes m) \<rparr>, NoCmd)
          else Inr (m, NoCmd))"

text \<open>A sequence of messages, one \<open>Update\<close> after the other; a panic ends the run.\<close>

fun run :: "lib \<Rightarrow> Model \<Rightarrow> Msg list \<Rightarrow> panic + Model" where
  "run l m [] = Inr m"
| "run l m (msg # msgs) =
     (case Update l m msg of Inl e \<Rightarrow> Inl e | Inr (m', cmd) \<Rightarrow> run l m' msgs)"

section \<open>Notions used to state the properties\<close>

text \<open>A record is changing when the builder keeps it. \<open>groupBy\<close> is the loop
  \<open>for _, x := range xs { g[key(x)] = append(g[key(x)], x) }\<close>; \<open>fileGroupsOf\<close> and
  \<open>leftover\<close> name the two results of the passes over the root module. \<open>flatten\<close> is the
  depth-first flattening of a node, \<open>recordsOf\<close> the changing records met on the way
  (group headers carry \<open>no-op\<close> and drop out).\<close>

definition groupBy :: "('a \<Rightarrow> string) \<Rightarrow> (string \<times> 'a list) list \<Rightarrow> 'a list \<Rightarrow> (string \<times> 'a list) list" where
  "groupBy key g xs = foldl (\<lambda>g x. append_to g (key x) x) g xs"

definition relocatable :: "ResourceChange list \<Rightarrow> ResourceChange \<Rightarrow> bool" where
  "relocatable allRes res \<longleftrightarrow>
     Action res = ActionDelete \<and> findReplacementFile res allRes \<noteq> ''''"

definition changing :: "ResourceChange \<Rightarrow> bool" where
  "changing res \<longleftrightarrow> Action res \<noteq> ActionNoOp"

fun flatten :: "TreeNode \<Rightarrow> TreeNode list" where
  "flatten (TreeNode r e cs l rl) = TreeNode r e cs l rl # concat (map flatten cs)"

definition flattenForest :: "TreeNode list \<Rightarrow> TreeNode list" where
  "flattenForest ns = concat (map flatten ns)"

definition recordsOf :: "TreeNode list \<Rightarrow> ResourceChange list" where
  "recordsOf ns = filter changing (map Resource (flattenForest ns))"

definition vals :: "(string \<times> 'a list) list \<Rightarrow> 'a list" where
  "vals g = concat (map snd g)"

definition fileGroupsOf :: "ResourceChange list \<Rightarrow> (string \<times> ResourceChange list) list" where
  "fileGroupsOf xs =
     groupBy (\<lambda>r. findReplacementFile r xs)
       (groupBy getResourceFileName [] (filter (\<lambda>r. getResourceFileName r \<noteq> ''unknown.tf'') xs))
       (filter (relocatable xs) (filter (\<lambda>r. getResourceFileName r = ''unknown.tf'') xs))"

definition leftover :: "ResourceChange list \<Rightarrow> ResourceChange list" where
  "leftover xs =
     filter (\<lambda>r. \<not> relocatable xs r) (filter (\<lambda>r. getResourceFileName r = ''unknown.tf'') xs)"

text \<open>Example records: address, type, module, action, index and file path (empty for
  a record without drift information).\<close>

definition mkResource ::
  "string \<Rightarrow> string \<Rightarrow> string \<Rightarrow> ChangeAction \<Rightarrow> jvalue \<Rightarrow> string \<Rightarrow> ResourceChange" where
  "mkResource a t m act idx fp =
     \<lparr> Address = a, Type = t, Name = a, Module = m, Mode = ''managed'', ProviderName = ''aws'',
       Change = \<lparr> Actions = [], Before = [], After = [] \<rparr>, Action = act,
       ActionReason = '''', Index = idx, Deposed = '''', Dependencies = [],
       DriftInfo = (if fp = '''' then None
                    else Some \<lparr> ResourceName = a, FilePath = fp, CommitID = '''', BranchName = '''',
                           AuthorName = '''', AuthorEmail = '''', CommitDate = '''',
                           IsTracked = False, HasUncommittedChanges = False, Error = '''' \<rparr>) \<rparr>"

definition res_a :: ResourceChange where
  "res_a = mkResource ''aws_instance.a'' ''aws_instance'' '''' ''delete'' JNull ''''"

definition res_b :: ResourceChange where
  "res_b = mkResource ''aws_instance.b'' ''aws_instance'' '''' ''create'' JNull ''infra/main.tf''"

definition res_c :: ResourceChange where
  "res_c = mkResource ''aws_s3_bucket.c'' ''aws_s3_bucket'' '''' ''update'' JNull ''''"

definition res_m :: ResourceChange where
  "res_m = mkResource ''module.m.aws_instance.x'' ''aws_instance'' ''m'' ''create'' JNull ''''"

text \<open>The line at which the node under the cursor starts and the line at which it
  ends, counted as \<open>adjustViewport\<close> counts them; a cursor is in range when it points
  at a visible node.\<close>

definition cursorLineStart :: "lib \<Rightarrow> Model \<Rightarrow> int" where
  "cursorLineStart l m =
     sum_list (map (nodeLines l) (take (nat (cursor m)) (getVisibleNodes (nodes m))))"

definition cursorLineEnd :: "lib \<Rightarrow> Model \<Rightarrow> int" where
  "cursorLineEnd l m =
     cursorLineStart l m + nodeLines l (getVisibleNodes (nodes m) ! nat (cursor m)) - 1"

definition cursorInRange :: "Model \<Rightarrow> bool" where
  "cursorInRange m \<longleftrightarrow> 0 \<le> cursor m \<and> cursor m < int (length (getVisibleNodes (nodes m)))"

definition downKey :: Msg where "downKey = KeyMsg ''down''"

text \<open>A library that adds nothing: styles that render a text as it is, quoting of
  a text that needs no escape.\<close>

definition plainLib :: lib where
  "plainLib = \<lparr> quote = (\<lambda>s. ''\"'' @ s @ ''\"''), tryPrettyJSON = (\<lambda>s. s),
      createStyle = (\<lambda>s. s), updateStyle = (\<lambda>s. s), deleteStyle = (\<lambda>s. s),
      replaceStyle = (\<lambda>s. s), noopStyle = (\<lambda>s. s), attributeStyle = (\<lambda>s. s),
      valueAddStyle = (\<lambda>s. s), valueRemStyle = (\<lambda>s. s), warnStyle = (\<lambda>s. s) \<rparr>"

text \<open>A place of the visible sequence: the index of a top-level node, and for a child
  the index in the child list of its parent. \<open>visiblePaths\<close> lists the places that
  \<open>getVisibleNodes\<close> walks through, \<open>nodeAt\<close> reads the node at a place. They name a node
  by where it is in the forest, whatever its flags are.\<close>

fun pathsFrom :: "nat \<Rightarrow> TreeNode list \<Rightarrow> (nat \<times> nat option) list" where
  "pathsFrom i [] = []"
| "pathsFrom i (node # ns) =
     (i, None) # map (\<lambda>j. (i, Some j)) [0..<length (shownChildren node)] @ pathsFrom (Suc i) ns"

definition visiblePaths :: "TreeNode list \<Rightarrow> (nat \<times> nat option) list" where
  "visiblePaths ns = pathsFrom 0 ns"

fun nodeAt :: "TreeNode list \<Rightarrow> nat \<times> nat option \<Rightarrow> TreeNode" where
  "nodeAt ns (i, None) = ns ! i"
| "nodeAt ns (i, Some j) = Children (ns ! i) ! j"

text \<open>The cursor is in view when the first line of its node lies in the window; a state
  is valid when its offset is not negative and its cursor points at a visible node
  (or is 0 when nothing is visible).\<close>

definition cursorInView :: "lib \<Rightarrow> Model \<Rightarrow> bool" where
  "cursorInView l m \<longleftrightarrow>
     viewportTop m \<le> cursorLineStart l m \<and> cursorLineStart l m < viewportTop m + viewportSize m"

definition validState :: "Model \<Rightarrow> bool" where
  "validState m \<longleftrightarrow>
     0 \<le> viewportTop m
     \<and> (cursorInRange m \<or> getVisibleNodes (nodes m) = [] \<and> cursor m = 0)"

text \<open>Example records and states.\<close>

definition res_d :: ResourceChange where
  "res_d = mkResource ''aws_s3_bucket.d'' ''aws_s3_bucket'' '''' ''update'' JNull ''''"

definition freshInstance :: "string \<Rightarrow> ResourceChange" where
  "freshInstance a = mkResource a ''aws_instance'' '''' ''create'' JNull ''''"

definition sixResources :: "ResourceChange list" where
  "sixResources = map freshInstance [''r1'', ''r2'', ''r3'', ''r4'', ''r5'', ''r6'']"

definition threeLeaves :: Model where
  "threeLeaves =
     \<lparr> nodes = map (leafNode 0) [res_a, res_c, res_d], cursor = 0, viewMode = 0, viewportTop = 0,
       viewportSize = 20, width = 80, height = 24 \<rparr>"

definition twoRowsOneDown :: Model where
  "twoRowsOneDown = threeLeaves\<lparr> cursor := 1, viewportSize := 2, height := 12 \<rparr>"

definition sixExpanded :: Model where
  "sixExpanded =
     \<lparr> nodes = map (\<lambda>r. TreeNode r True [] 0 0) sixResources, cursor = 5, viewMode = 0,
       viewportTop = 0, viewportSize = 20, width = 80, height = 24 \<rparr>"

definition moduleExpanded :: Model where
  "moduleExpanded =
     \<lparr> nodes = [setExpanded True (moduleNode ''m'' [res_m])], cursor = 0, viewMode = 0,
       viewportTop = 0, viewportSize = 20, width = 80, height = 24 \<rparr>"

text \<open>What an allocating step adds to the state: the nodes \<open>new\<close> (as values), with the
  objects from the old to the new allocation number.\<close>

definition adds :: "(LNode list \<times> nat \<Rightarrow> LNode list \<times> nat) \<Rightarrow> TreeNode list \<Rightarrow> bool" where
  "adds step new \<longleftrightarrow>
     (\<forall>ns next. \<exists>ms k. step (ns, next) = (ns @ ms, next + k)
        \<and> map erase ms = new \<and> concat (map idents ms) = [next..<next + k])"

text \<open>\<open>visibleFrom\<close> is the depth-first walk that enters the children of expanded nodes
  only; \<open>clearFlags\<close> resets every expansion flag, so that two forests with the same
  image differ in flags only; a forest is shallow when no child has children.\<close>

fun visibleFrom :: "TreeNode \<Rightarrow> TreeNode list" where
  "visibleFrom (TreeNode r e cs l rl) =
     TreeNode r e cs l rl # (if e then concat (map visibleFrom cs) else [])"

fun clearFlags :: "TreeNode \<Rightarrow> TreeNode" where
  "clearFlags (TreeNode r e cs l rl) = TreeNode r False (map clearFlags cs) l rl"

definition shallow :: "TreeNode list \<Rightarrow> bool" where
  "shallow ns \<longleftrightarrow> (\<forall>n\<in>set ns. \<forall>c\<in>set (Children n). Children c = [])"


fun height :: "jvalue \<Rightarrow> nat" where
  "height (JObj kvs) = Suc (foldr max (map (\<lambda>(k, x). height x) kvs) 0)"
| "height (JArr xs) = Suc (foldr max (map height xs) 0)"
| "height v = 0"

text \<open>A list nested seven deep.\<close>

definition nested7 :: jvalue where
  "nested7 = JArr [JArr [JArr [JArr [JArr [JArr [JArr [JStr ''deep'']]]]]]]"

section \<open>Properties of the tree builder\<close>

lemma lookup_append_to:
  "lookup (append_to g k v) k' = (if k' = k then lookup g k @ [v] else lookup g k')"
  by (induction g k v rule: append_to.induct) (auto simp: lookup_def)

lemma keys_append_to: "fst ` set (append_to g k v) = insert k (fst ` set g)"
  by (induction g k v rule: append_to.induct) auto

lemma distinct_append_to:
  "distinct (map fst g) \<Longrightarrow> distinct (map fst (append_to g k v))"
  by (induction g k v rule: append_to.induct) (auto simp: keys_append_to)

lemma groupBy_simps [simp]:
  "groupBy key g [] = g"
  "groupBy key g (x # xs) = groupBy key (append_to g (key x) x) xs"
  by (simp_all add: groupBy_def)

lemma lookup_groupBy:
  "lookup (groupBy key g xs) k = lookup g k @ filter (\<lambda>x. key x = k) xs"
  by (induction xs arbitrary: g) (auto simp: lookup_append_to)

lemma keys_groupBy: "fst ` set (groupBy key g xs) = fst ` set g \<union> key ` set xs"
  by (induction xs arbitrary: g) (simp_all add: keys_append_to)

lemma distinct_groupBy:
  "distinct (map fst g) \<Longrightarrow> distinct (map fst (groupBy key g xs))"
  by (induction xs arbitrary: g) (auto simp: distinct_append_to)

lemma firstPass_eq:
  "firstPass rs =
     (groupBy getResourceFileName [] (filter (\<lambda>r. getResourceFileName r \<noteq> ''unknown.tf'') rs),
      filter (\<lambda>r. getResourceFileName r = ''unknown.tf'') rs)"
proof -
  have "foldl (\<lambda>(fileGroups, ungrouped) res.
              if getResourceFileName res = ''unknown.tf'' then (fileGroups, ungrouped @ [res])
              else (append_to fileGroups (getResourceFileName res) res, ungrouped))
       (g, u) rs
     = (groupBy getResourceFileName g (filter (\<lambda>r. getResourceFileName r \<noteq> ''unknown.tf'') rs),
        u @ filter (\<lambda>r. getResourceFileName r = ''unknown.tf'') rs)" for g u
    by (induction rs arbitrary: g u) auto
  then show ?thesis by (simp add: firstPass_def)
qed

lemma secondPass_eq:
  "secondPass allRes fg ug =
     (groupBy (\<lambda>r. findReplacementFile r allRes) fg (filter (relocatable allRes) ug),
      filter (\<lambda>r. \<not> relocatable allRes r) ug)"
proof -
  have "foldl (\<lambda>(fg, remaining) res.
              if Action res = ActionDelete then
                (if findReplacementFile res allRes \<noteq> ''''
                 then (append_to fg (findReplacementFile res allRes) res, remaining)
                 else (fg, remaining @ [res]))
              else (fg, remaining @ [res]))
       (g, u) ug
     = (groupBy (\<lambda>r. findReplacementFile r allRes) g (filter (relocatable allRes) ug),
        u @ filter (\<lambda>r. \<not> relocatable allRes r) ug)" for g u
    by (induction ug arbitrary: g u) (auto simp: relocatable_def)
  then show ?thesis by (simp add: secondPass_def)
qed

lemma moduleGroupsOf_eq: "moduleGroupsOf rs = groupBy moduleKey [] rs"
  by (simp add: moduleGroupsOf_def groupBy_def)

lemma findReplacementFile_found:
  "findReplacementFile d rs \<noteq> '''' \<Longrightarrow>
     \<exists>c \<in> set rs. Action c = ActionCreate \<and> Type c = Type d
        \<and> indexMatches (Index c) (Index d)
        \<and> getResourceFileName c = findReplacementFile d rs
        \<and> getResourceFileName c \<noteq> ''unknown.tf''"
  by (induction rs) (auto split: if_splits)

lemma lookup_Nil [simp]: "lookup [] k = []"
  by (simp add: lookup_def)

lemma single_key:
  assumes "distinct (map fst g)" "fst ` set g = {k}"
  shows "map fst g = [k]"
proof (cases g)
  case Nil
  with assms show ?thesis by simp
next
  case (Cons e g')
  with assms have e: "fst e = k" by auto
  have "g' = []"
  proof (rule ccontr)
    assume "g' \<noteq> []"
    then obtain e' where e': "e' \<in> set g'" by (cases g') auto
    with assms Cons have "fst e' = k" by auto
    with e e' assms(1) Cons show False by (auto simp: image_iff)
  qed
  with Cons e show ?thesis by simp
qed

lemma groupBy_single:
  assumes "xs \<noteq> []" "\<forall>x\<in>set xs. key x = k"
  shows "map fst (groupBy key [] xs) = [k]" "lookup (groupBy key [] xs) k = xs"
proof -
  have "fst ` set (groupBy key [] xs) = {k}"
    using assms by (cases xs) (auto simp: keys_groupBy)
  moreover have "distinct (map fst (groupBy key [] xs))"
    by (rule distinct_groupBy) simp
  ultimately show "map fst (groupBy key [] xs) = [k]" by (rule single_key[rotated])
  show "lookup (groupBy key [] xs) k = xs"
    using assms by (simp add: lookup_groupBy filter_id_conv)
qed

lemma buildTreeNodes_eq:
  "buildTreeNodes rs =
     concat (map (\<lambda>m. moduleNodes m (sort_key Address (filter (\<lambda>r. moduleKey r = m) (filter changing rs))))
       (sort (map fst (groupBy moduleKey [] (filter changing rs)))))"
  unfolding buildTreeNodes_def Let_def moduleGroupsOf_eq changing_def[abs_def]
  by (simp add: lookup_groupBy del: filter_filter)

lemma rootNodes_single_file:
  assumes "\<forall>r\<in>set rs. getResourceFileName r = f" "f \<noteq> ''unknown.tf''"
  shows "rootNodes rs = map (leafNode 0) rs"
proof (cases "rs = []")
  case True
  then show ?thesis by (simp add: rootNodes_def firstPass_def secondPass_def)
next
  case False
  have loc: "filter (\<lambda>r. getResourceFileName r \<noteq> ''unknown.tf'') rs = rs"
    and unk: "filter (\<lambda>r. getResourceFileName r = ''unknown.tf'') rs = []"
    using assms by (auto simp: filter_id_conv filter_empty_conv)
  have fp: "firstPass rs = (groupBy getResourceFileName [] rs, [])"
    by (simp add: firstPass_eq loc unk)
  have sp: "secondPass rs (groupBy getResourceFileName [] rs) [] = (groupBy getResourceFileName [] rs, [])"
    by (simp add: secondPass_def)
  note g = groupBy_single[OF False assms(1)]
  have len: "length (groupBy getResourceFileName [] rs) = 1"
    using g(1) by (metis length_map length_Cons list.size(3) One_nat_def)
  show ?thesis
    by (simp add: rootNodes_def fp sp g len)
qed

lemma buildTreeNodes_single_file:
  assumes "\<forall>r\<in>set rs. changing r \<longrightarrow> moduleKey r = ''root'' \<and> getResourceFileName r = f"
    and "f \<noteq> ''unknown.tf''"
  shows "buildTreeNodes rs = map (leafNode 0) (sort_key Address (filter changing rs))"
proof (cases "filter changing rs = []")
  case True
  then show ?thesis by (simp add: buildTreeNodes_eq)
next
  case False
  have k: "\<forall>r\<in>set (filter changing rs). moduleKey r = ''root''" using assms by auto
  note g = groupBy_single[OF False k]
  have "filter (\<lambda>r. moduleKey r = ''root'') (filter changing rs) = filter changing rs"
    using k by (intro filter_True) 
  moreover have "rootNodes (sort_key Address (filter changing rs)) = map (leafNode 0) (sort_key Address (filter changing rs))"
    by (rule rootNodes_single_file[where f = f]) (use assms in auto)
  ultimately show ?thesis
    by (simp add: buildTreeNodes_eq g(1) moduleNodes_def del: filter_filter)
qed

lemma buildTreeNodes_single_module:
  assumes "\<forall>r\<in>set rs. changing r \<longrightarrow> Module r = m" "m \<noteq> ''''" "m \<noteq> ''root''"
    "filter changing rs \<noteq> []"
  shows "buildTreeNodes rs = [moduleNode m (sort_key Address (filter changing rs))]"
proof -
  have k: "\<forall>r\<in>set (filter changing rs). moduleKey r = m" using assms by (auto simp: moduleKey_def)
  note g = groupBy_single[OF assms(4) k]
  have "filter (\<lambda>r. moduleKey r = m) (filter changing rs) = filter changing rs"
    using k by (intro filter_True)
  moreover have "sort_key Address (filter changing rs) \<noteq> []"
    using assms(4) by (metis length_sort length_0_conv)
  ultimately show ?thesis
    using assms(3,4) by (simp add: buildTreeNodes_eq g(1) moduleNodes_def del: filter_filter)
qed

lemma mset_vals_append_to: "mset (vals (append_to g k v)) = mset (vals g) + {#v#}"
  by (induction g k v rule: append_to.induct) (auto simp: vals_def)

lemma mset_vals_groupBy: "mset (vals (groupBy key g xs)) = mset (vals g) + mset xs"
  by (induction xs arbitrary: g) (auto simp: mset_vals_append_to)

lemma lookup_own_key:
  "distinct (map fst g) \<Longrightarrow> (k, vs) \<in> set g \<Longrightarrow> lookup g k = vs"
  by (simp add: lookup_def)

lemma concat_lookup_keys:
  assumes "distinct (map fst g)"
  shows "concat (map (lookup g \<circ> fst) g) = vals g"
proof -
  have *: "map (lookup g \<circ> fst) g = map snd g"
    using assms by (intro map_cong) (auto simp: lookup_own_key)
  show ?thesis unfolding vals_def * ..
qed

lemma mset_concat_perm:
  assumes "mset ks = mset ks'" "\<And>k. mset (F k) = mset (G k)"
  shows "mset (concat (map F ks)) = mset (concat (map G ks'))"
proof -
  have "mset (concat (map F ks)) = sum_mset (image_mset (\<lambda>k. mset (F k)) (mset ks))"
    by (simp add: mset_concat sum_mset_sum_list[symmetric] comp_def)
  also have "\<dots> = sum_mset (image_mset (\<lambda>k. mset (G k)) (mset ks'))"
    using assms by simp
  also have "\<dots> = mset (concat (map G ks'))"
    by (simp add: mset_concat sum_mset_sum_list[symmetric] comp_def)
  finally show ?thesis .
qed

lemma mset_concat_lookup:
  assumes "distinct (map fst g)" "\<And>k. mset (F k) = mset (lookup g k)"
  shows "mset (concat (map F (sort (map fst g)))) = mset (vals g)"
proof -
  have "mset (concat (map F (sort (map fst g)))) = mset (concat (map (lookup g) (map fst g)))"
    by (rule mset_concat_perm) (simp_all add: assms(2))
  then show ?thesis by (simp add: concat_lookup_keys[OF assms(1)])
qed

lemma flatten_leafNode [simp]: "flatten (leafNode l r) = [leafNode l r]"
  by (simp add: leafNode_def)

lemma concat_flatten_leaves [simp]:
  "concat (map (flatten \<circ> leafNode l) rs) = map (leafNode l) rs"
  by (induction rs) simp_all

lemma flatten_fileNode [simp]:
  "flatten (fileNode f rs) = fileNode f rs # map (leafNode 1) rs"
  by (simp add: fileNode_def)

lemma flatten_moduleNode [simp]:
  "flatten (moduleNode m rs) = moduleNode m rs # map (leafNode 1) rs"
  by (simp add: moduleNode_def)

lemma vals_Nil [simp]: "vals [] = []"
  by (simp add: vals_def)

lemma rootNodes_eq:
  "rootNodes xs =
     concat (map (\<lambda>f. if length (fileGroupsOf xs) = 1 \<and> length (leftover xs) = 0
                      then map (leafNode 0) (lookup (fileGroupsOf xs) f)
                      else if length (lookup (fileGroupsOf xs) f) > 0 then [fileNode f (lookup (fileGroupsOf xs) f)]
                      else [])
               (sort (map fst (fileGroupsOf xs))))
     @ map (leafNode 0) (leftover xs)"
  unfolding rootNodes_def firstPass_eq secondPass_eq fileGroupsOf_def leftover_def Let_def prod.case
  by (rule refl)

lemma lookup_fileGroupsOf:
  "lookup (fileGroupsOf xs) f =
     filter (\<lambda>r. getResourceFileName r = f) (filter (\<lambda>r. getResourceFileName r \<noteq> ''unknown.tf'') xs)
     @ filter (\<lambda>r. findReplacementFile r xs = f)
         (filter (relocatable xs) (filter (\<lambda>r. getResourceFileName r = ''unknown.tf'') xs))"
  by (simp add: fileGroupsOf_def lookup_groupBy del: filter_filter)

lemma set_lookup_fileGroupsOf: "set (lookup (fileGroupsOf xs) f) \<subseteq> set xs"
  by (auto simp: lookup_fileGroupsOf)

lemma set_leftover: "set (leftover xs) \<subseteq> set xs"
  by (auto simp: leftover_def)

lemma distinct_fileGroupsOf: "distinct (map fst (fileGroupsOf xs))"
  unfolding fileGroupsOf_def by (intro distinct_groupBy) simp

lemma mset_root_partition:
  "mset (vals (fileGroupsOf xs)) + mset (leftover xs) = mset xs"
proof -
  let ?u = "\<lambda>r. getResourceFileName r = ''unknown.tf''"
  have "mset (vals (fileGroupsOf xs)) + mset (leftover xs)
      = mset (filter (\<lambda>r. \<not> ?u r) xs)
        + (mset (filter (relocatable xs) (filter ?u xs))
           + mset (filter (\<lambda>r. \<not> relocatable xs r) (filter ?u xs)))"
    by (simp add: fileGroupsOf_def leftover_def mset_vals_groupBy del: filter_filter mset_filter)
  also have "\<dots> = mset (filter (\<lambda>r. \<not> ?u r) xs) + mset (filter ?u xs)"
    by (simp only: mset_filter multiset_partition[symmetric])
  also have "\<dots> = mset xs"
    by (simp only: mset_filter) (metis add.commute multiset_partition)
  finally show ?thesis .
qed

lemma recordsOf_append [simp]: "recordsOf (xs @ ys) = recordsOf xs @ recordsOf ys"
  by (simp add: recordsOf_def flattenForest_def)

lemma recordsOf_concat: "recordsOf (concat xss) = concat (map recordsOf xss)"
  by (induction xss) (simp_all add: recordsOf_def flattenForest_def)

lemma recordsOf_Nil [simp]: "recordsOf [] = []"
  by (simp add: recordsOf_def flattenForest_def)

lemma recordsOf_leaves:
  "\<forall>r\<in>set rs. changing r \<Longrightarrow> recordsOf (map (leafNode l) rs) = rs"
  by (induction rs) (simp_all add: recordsOf_def flattenForest_def leafNode_def)

lemma not_changing_groupResource [simp]: "\<not> changing (groupResource kind name modl r)"
  by (simp add: changing_def groupResource_def)

lemma recordsOf_fileNode:
  "\<forall>r\<in>set rs. changing r \<Longrightarrow> recordsOf [fileNode f rs] = rs"
  using recordsOf_leaves[of rs 1]
  by (simp add: recordsOf_def flattenForest_def) (simp add: fileNode_def)

lemma recordsOf_moduleNode:
  "\<forall>r\<in>set rs. changing r \<Longrightarrow> recordsOf [moduleNode m rs] = rs"
  using recordsOf_leaves[of rs 1]
  by (simp add: recordsOf_def flattenForest_def) (simp add: moduleNode_def)

lemma recordsOf_rootNodes:
  assumes "\<forall>r\<in>set xs. changing r"
  shows "recordsOf (rootNodes xs) =
           concat (map (lookup (fileGroupsOf xs)) (sort (map fst (fileGroupsOf xs)))) @ leftover xs"
proof -
  have ch: "\<forall>r\<in>set (lookup (fileGroupsOf xs) f). changing r" for f
    using assms set_lookup_fileGroupsOf by blast
  have ch': "\<forall>r\<in>set (leftover xs). changing r"
    using assms set_leftover by blast
  have "recordsOf (if length (fileGroupsOf xs) = 1 \<and> length (leftover xs) = 0
                      then map (leafNode 0) (lookup (fileGroupsOf xs) f)
                      else if length (lookup (fileGroupsOf xs) f) > 0 then [fileNode f (lookup (fileGroupsOf xs) f)]
                      else []) = lookup (fileGroupsOf xs) f" for f
    using ch[of f] by (simp add: recordsOf_leaves recordsOf_fileNode)
  then show ?thesis
    by (simp add: rootNodes_eq recordsOf_concat comp_def recordsOf_leaves[OF ch'])
qed

lemma mset_recordsOf_rootNodes:
  assumes "\<forall>r\<in>set xs. changing r"
  shows "mset (recordsOf (rootNodes xs)) = mset xs"
proof -
  have "mset (concat (map (lookup (fileGroupsOf xs)) (sort (map fst (fileGroupsOf xs)))))
        = mset (vals (fileGroupsOf xs))"
    by (rule mset_concat_lookup[OF distinct_fileGroupsOf]) simp
  then show ?thesis
    using mset_root_partition[of xs] by (simp add: recordsOf_rootNodes[OF assms])
qed

lemma mset_recordsOf_moduleNodes:
  assumes "\<forall>r\<in>set xs. changing r"
  shows "mset (recordsOf (moduleNodes m xs)) = mset xs"
  using assms by (simp add: moduleNodes_def mset_recordsOf_rootNodes recordsOf_moduleNode)

lemma mset_recordsOf_buildTreeNodes:
  "mset (recordsOf (buildTreeNodes rs)) = mset (filter changing rs)"
proof -
  let ?cs = "filter (\<lambda>res. Action res \<noteq> ActionNoOp) rs"
  let ?g = "groupBy moduleKey [] ?cs"
  have cs: "?cs = filter changing rs" by (simp add: changing_def[abs_def])
  have ch: "\<forall>r\<in>set (sort_key Address (lookup ?g m)). changing r" for m
    by (auto simp: lookup_groupBy changing_def)
  have "mset (recordsOf (buildTreeNodes rs))
        = mset (concat (map (\<lambda>m. recordsOf (moduleNodes m (sort_key Address (lookup ?g m))))
              (sort (map fst ?g))))"
    by (simp add: buildTreeNodes_def Let_def moduleGroupsOf_eq recordsOf_concat comp_def)
  also have "\<dots> = mset (vals ?g)"
    by (rule mset_concat_lookup) (simp_all add: distinct_groupBy mset_recordsOf_moduleNodes[OF ch])
  also have "\<dots> = mset ?cs"
    by (simp add: mset_vals_groupBy)
  finally show ?thesis by (simp only: cs)
qed

lemma sort_key_perm_eq:
  assumes "mset xs = mset ys" "distinct (map f ys)"
  shows "sort_key f xs = sort_key f ys"
proof (rule sort_key_inj_key_eq)
  show "mset xs = mset (sort_key f ys)" using assms(1) by simp
  have "mset (map f xs) = mset (map f ys)" using assms(1) by simp
  then have "distinct (map f xs)" using assms(2) by (metis mset_eq_imp_distinct_iff)
  then show "inj_on f (set xs)" by (simp add: distinct_map)
  show "sorted (map f (sort_key f ys))" by simp
qed

lemma sort_mset_eq: "mset xs = mset ys \<Longrightarrow> sort xs = sort ys"
  by (metis sorted_list_of_multiset_mset)

lemma keys_groupBy_perm:
  assumes "mset xs = mset ys"
  shows "sort (map fst (groupBy key [] xs)) = sort (map fst (groupBy key [] ys))"
proof (rule sort_mset_eq)
  have "set xs = set ys" using assms by (metis set_mset_mset)
  then have "set (map fst (groupBy key [] xs)) = set (map fst (groupBy key [] ys))"
    by (simp add: keys_groupBy)
  moreover have "distinct (map fst (groupBy key [] xs))" "distinct (map fst (groupBy key [] ys))"
    by (simp_all add: distinct_groupBy)
  ultimately show "mset (map fst (groupBy key [] xs)) = mset (map fst (groupBy key [] ys))"
    by (simp only: set_eq_iff_mset_eq_distinct)
qed

lemma buildTreeNodes_perm:
  assumes "mset rs' = mset rs" "distinct (map Address (filter changing rs))"
  shows "buildTreeNodes rs' = buildTreeNodes rs"
proof -
  let ?cs = "filter changing rs" and ?cs' = "filter changing rs'"
  have m: "mset ?cs' = mset ?cs" using assms(1) by simp
  have names: "sort (map fst (groupBy moduleKey [] ?cs')) = sort (map fst (groupBy moduleKey [] ?cs))"
    by (rule keys_groupBy_perm[OF m])
  have "sort_key Address (filter (\<lambda>r. moduleKey r = k) ?cs')
        = sort_key Address (filter (\<lambda>r. moduleKey r = k) ?cs)" for k
  proof (rule sort_key_perm_eq)
    show "mset (filter (\<lambda>r. moduleKey r = k) ?cs') = mset (filter (\<lambda>r. moduleKey r = k) ?cs)"
      using m by (simp only: mset_filter)
    show "distinct (map Address (filter (\<lambda>r. moduleKey r = k) ?cs))"
      using assms(2) by (rule distinct_map_filter)
  qed
  then show ?thesis
    by (simp only: buildTreeNodes_eq names)
qed

lemma rootNodes_cases:
  assumes "n \<in> set (rootNodes xs)"
  shows "(\<exists>r\<in>set xs. n = leafNode 0 r)
       \<or> (\<exists>f. n = fileNode f (lookup (fileGroupsOf xs) f) \<and> lookup (fileGroupsOf xs) f \<noteq> [])"
  using assms set_lookup_fileGroupsOf[of xs] set_leftover[of xs]
  by (auto simp: rootNodes_eq split: if_splits)

lemma moduleNodes_cases:
  assumes "n \<in> set (moduleNodes m xs)"
  shows "(\<exists>r\<in>set xs. n = leafNode 0 r)
       \<or> (\<exists>f. n = fileNode f (lookup (fileGroupsOf xs) f) \<and> lookup (fileGroupsOf xs) f \<noteq> [])
       \<or> (n = moduleNode m xs \<and> xs \<noteq> [])"
  using assms rootNodes_cases[of n xs]
  by (auto simp: moduleNodes_def split: if_splits)

lemma buildTreeNodes_cases:
  assumes "n \<in> set (buildTreeNodes rs)"
  obtains m where "n \<in> set (moduleNodes m (sort_key Address (filter (\<lambda>r. moduleKey r = m) (filter changing rs))))"
  using assms by (auto simp: buildTreeNodes_eq simp del: filter_filter)

lemma sorted_filter_map: "sorted (map f xs) \<Longrightarrow> sorted (map f (filter P xs))"
  by (induction xs) auto

lemma fileGroup_order:
  assumes "sorted (map Address xs)"
  shows "\<exists>ys zs. lookup (fileGroupsOf xs) f = ys @ zs
           \<and> sorted (map Address ys) \<and> sorted (map Address zs)
           \<and> (\<forall>r\<in>set ys. getResourceFileName r = f)
           \<and> (\<forall>r\<in>set zs. Action r = ActionDelete \<and> getResourceFileName r = ''unknown.tf''
                    \<and> findReplacementFile r xs = f)"
  unfolding lookup_fileGroupsOf
  by (intro exI conjI, rule refl) (auto simp: assms sorted_filter_map relocatable_def simp del: filter_filter)

lemma Children_fileNode [simp]: "map Resource (Children (fileNode f rs)) = rs"
  by (simp add: fileNode_def leafNode_def comp_def)

lemma Children_moduleNode [simp]: "map Resource (Children (moduleNode m rs)) = rs"
  by (simp add: moduleNode_def leafNode_def comp_def)

lemma Children_leafNode [simp]: "Children (leafNode l r) = []"
  by (simp add: leafNode_def)

lemma Type_fileNode [simp]: "Type (Resource (fileNode f rs)) = ''file''"
  by (simp add: fileNode_def groupResource_def)

lemma group_children_order:
  assumes n: "n \<in> set (moduleNodes m xs)" and sorted: "sorted (map Address xs)"
  shows "\<exists>ys zs.
          map Resource (Children n) = ys @ zs
          \<and> sorted (map Address ys) \<and> sorted (map Address zs)
          \<and> (\<forall>r\<in>set zs. Action r = ActionDelete \<and> getResourceFileName r = ''unknown.tf'')
          \<and> (Type (Resource n) = ''module'' \<longrightarrow> zs = [])"
proof -
  from moduleNodes_cases[OF n] consider
      (leaf) r where "n = leafNode 0 r"
    | (fgroup) f where "n = fileNode f (lookup (fileGroupsOf xs) f)"
    | (modl) "n = moduleNode m xs"
    by blast
  then show ?thesis
  proof cases
    case leaf
    have "map Resource (Children n) = [] @ []" using leaf by simp
    then show ?thesis by (intro exI[of _ "[]"]) simp
  next
    case fgroup
    from fileGroup_order[OF sorted, of f] obtain ys zs where
      "lookup (fileGroupsOf xs) f = ys @ zs" "sorted (map Address ys)" "sorted (map Address zs)"
      "\<forall>r\<in>set zs. Action r = ActionDelete \<and> getResourceFileName r = ''unknown.tf''"
      by blast
    moreover have "Type (Resource n) \<noteq> ''module''" using fgroup by simp
    moreover have "map Resource (Children n) = lookup (fileGroupsOf xs) f" using fgroup by simp
    ultimately show ?thesis by (intro exI[of _ ys] exI[of _ zs]) simp
  next
    case modl
    have "map Resource (Children n) = xs @ []"
      using modl by simp
    with sorted show ?thesis by (intro exI[of _ xs] exI[of _ "[]"]) simp
  qed
qed

section \<open>Properties of navigation and viewport\<close>

lemma nodeLines_pos: "1 \<le> nodeLines l n"
  by (simp add: nodeLines_def Let_def)

lemma sum_nodeLines_nonneg: "0 \<le> sum_list (map (nodeLines l) ns)"
proof (induction ns)
  case Nil
  show ?case by simp
next
  case (Cons a ns)
  with nodeLines_pos[of l a] show ?case by simp
qed

lemma cursorLineStart_nonneg: "0 \<le> cursorLineStart l m"
  by (simp add: cursorLineStart_def sum_nodeLines_nonneg)

lemma adjustViewport_in_range:
  assumes "cursorInRange m"
  shows "adjustViewport l m =
     m\<lparr> cursor := cursor m,
        viewportTop := max 0
          (if cursorLineStart l m < viewportTop m then cursorLineStart l m
           else if cursorLineEnd l m \<ge> viewportTop m + viewportSize m
           then min (cursorLineStart l m) (cursorLineEnd l m - viewportSize m + 1)
           else viewportTop m) \<rparr>"
proof -
  have ne: "length (getVisibleNodes (nodes m)) \<noteq> 0" and c: "0 \<le> cursor m"
    "\<not> cursor m \<ge> int (length (getVisibleNodes (nodes m)))"
    using assms by (auto simp: cursorInRange_def)
  have fits: "nodeLines l (getVisibleNodes (nodes m) ! nat (cursor m)) \<le> viewportSize m
        \<longleftrightarrow> cursorLineEnd l m - viewportSize m + 1 \<le> cursorLineStart l m"
    by (simp add: cursorLineEnd_def)
  show ?thesis
    unfolding adjustViewport_def Let_def
    using ne c fits
    by (simp add: cursorLineStart_def[symmetric] cursorLineEnd_def[symmetric] max_def min_def
          del: length_0_conv)
qed

lemma sum_unit_lines:
  assumes "\<forall>n\<in>set ns. nodeLines l n = 1"
  shows "sum_list (map (nodeLines l) (take k ns)) = int (min k (length ns))"
  using assms
proof (induction ns arbitrary: k)
  case Nil
  show ?case by simp
next
  case (Cons a ns)
  then show ?case by (cases k) auto
qed

lemma down_step:
  assumes unit: "\<forall>n\<in>set (getVisibleNodes (nodes m)). nodeLines l n = 1"
    and rng: "cursorInRange m"
    and top: "viewportTop m = max 0 (cursor m - viewportSize m + 1)"
    and B: "1 \<le> viewportSize m"
  shows "\<exists>m'. Update l m downKey = Inr (m', NoCmd)
           \<and> nodes m' = nodes m \<and> viewportSize m' = viewportSize m
           \<and> cursorInRange m'
           \<and> cursor m' = min (cursor m + 1) (int (length (getVisibleNodes (nodes m))) - 1)
           \<and> viewportTop m' = max 0 (cursor m' - viewportSize m' + 1)"
proof (cases "cursor m < int (length (getVisibleNodes (nodes m))) - 1")
  case False
  then have "Update l m downKey = Inr (m, NoCmd)"
    by (simp add: Update_def downKey_def)
  with False rng top show ?thesis by (auto simp: cursorInRange_def)
next
  case True
  let ?m1 = "m\<lparr> cursor := cursor m + 1 \<rparr>"
  have rng1: "cursorInRange ?m1" using True rng by (simp add: cursorInRange_def)
  have upd: "Update l m downKey = Inr (adjustViewport l ?m1, NoCmd)"
    using True by (simp add: Update_def downKey_def)
  have start: "cursorLineStart l ?m1 = cursor m + 1"
    using unit rng True by (simp add: cursorLineStart_def sum_unit_lines cursorInRange_def)
  have "getVisibleNodes (nodes m) ! nat (cursor m + 1) \<in> set (getVisibleNodes (nodes m))"
    using True rng by (intro nth_mem) (simp add: cursorInRange_def)
  with unit have "nodeLines l (getVisibleNodes (nodes m) ! nat (cursor m + 1)) = 1" by blast
  then have fin: "cursorLineEnd l ?m1 = cursor m + 1"
    by (simp add: cursorLineEnd_def start)
  show ?thesis
    unfolding upd adjustViewport_in_range[OF rng1] start fin
    using True rng top B by (auto simp: cursorInRange_def max_def min_def)
qed

lemma downs_run:
  assumes "\<forall>n\<in>set (getVisibleNodes (nodes m)). nodeLines l n = 1"
    and "cursorInRange m"
    and "viewportTop m = max 0 (cursor m - viewportSize m + 1)"
    and "1 \<le> viewportSize m"
  shows "\<exists>m'. run l m (replicate N downKey) = Inr m'
           \<and> cursor m' = min (cursor m + int N) (int (length (getVisibleNodes (nodes m))) - 1)
           \<and> viewportTop m' = max 0 (cursor m' - viewportSize m + 1)"
  using assms
proof (induction N arbitrary: m)
  case 0
  then show ?case by (auto simp: cursorInRange_def)
next
  case (Suc N)
  from down_step[OF Suc.prems] obtain m1 where
    u: "Update l m downKey = Inr (m1, NoCmd)" and n: "nodes m1 = nodes m"
    and s: "viewportSize m1 = viewportSize m" and r: "cursorInRange m1"
    and c: "cursor m1 = min (cursor m + 1) (int (length (getVisibleNodes (nodes m))) - 1)"
    and t: "viewportTop m1 = max 0 (cursor m1 - viewportSize m1 + 1)"
    by blast
  have "\<exists>m'. run l m1 (replicate N downKey) = Inr m'
           \<and> cursor m' = min (cursor m1 + int N) (int (length (getVisibleNodes (nodes m1))) - 1)
           \<and> viewportTop m' = max 0 (cursor m' - viewportSize m1 + 1)"
    by (rule Suc.IH) (use Suc.prems n s r t in auto)
  then obtain m' where
    "run l m1 (replicate N downKey) = Inr m'"
    "cursor m' = min (cursor m1 + int N) (int (length (getVisibleNodes (nodes m1))) - 1)"
    "viewportTop m' = max 0 (cursor m' - viewportSize m1 + 1)" by blast
  with u n s c show ?case by (auto simp: min_def)
qed

lemma adjustViewport_shows_cursor:
  assumes "getVisibleNodes (nodes m) \<noteq> []" "1 \<le> viewportSize m"
  shows "cursorInRange (adjustViewport l m)
       \<and> viewportTop (adjustViewport l m) \<le> cursorLineStart l (adjustViewport l m)
       \<and> cursorLineStart l (adjustViewport l m)
            < viewportTop (adjustViewport l m) + viewportSize (adjustViewport l m)
       \<and> 0 \<le> viewportTop (adjustViewport l m)
       \<and> nodes (adjustViewport l m) = nodes m"
proof -
  let ?vis = "getVisibleNodes (nodes m)"
  define c where "c = max 0 (min (cursor m) (int (length ?vis) - 1))"
  have len: "0 < length ?vis" using assms(1) by simp
  have c_rng: "0 \<le> c" "c < int (length ?vis)" using len by (auto simp: c_def)
  define start where "start = sum_list (map (nodeLines l) (take (nat c) ?vis))"
  define lines where "lines = nodeLines l (?vis ! nat c)"
  have start0: "0 \<le> start" by (simp add: start_def sum_nodeLines_nonneg)
  have lines1: "1 \<le> lines" by (simp add: lines_def nodeLines_pos)
  define top where "top = (if start < viewportTop m then start
                   else if start + lines - 1 \<ge> viewportTop m + viewportSize m
                   then (if lines \<le> viewportSize m
                         then start + lines - 1 - viewportSize m + 1
                         else start)
                   else viewportTop m)"
  have c_alt: "c = (let c1 = (if cursor m \<ge> int (length ?vis) then int (length ?vis) - 1
                  else cursor m) in if c1 < 0 then 0 else c1)"
    using len by (auto simp: c_def Let_def max_def min_def)
  have eq: "adjustViewport l m = m\<lparr> cursor := c, viewportTop := (if top < 0 then 0 else top) \<rparr>"
    unfolding adjustViewport_def Let_def using len
    by (simp add: c_alt Let_def start_def lines_def top_def)
  have top_ok: "top \<le> start \<and> start < (if top < 0 then 0 else top) + viewportSize m"
    using start0 lines1 assms(2) by (auto simp: top_def)
  show ?thesis
    unfolding eq using c_rng top_ok start0
    by (auto simp: cursorInRange_def cursorLineStart_def start_def[symmetric])
qed

lemma shownChildren_setExpanded_False [simp]: "shownChildren (setExpanded False n) = []"
  by (simp add: shownChildren_def setExpanded_def)

lemma Expanded_setExpanded [simp]: "Expanded (setExpanded b n) = b"
  by (simp add: setExpanded_def)

lemma setExpanded_twice [simp]: "setExpanded b (setExpanded b' n) = setExpanded b n"
  by (simp add: setExpanded_def)

lemma shownChildren_nth:
  "j < length (shownChildren n) \<Longrightarrow> shownChildren n ! j = Children n ! j"
  by (auto simp: shownChildren_def split: if_splits)

lemma getVisibleNodes_pathsFrom:
  "map (nodeAt (pre @ ns)) (pathsFrom (length pre) ns) = getVisibleNodes ns"
proof (induction ns arbitrary: pre)
  case Nil
  show ?case by (simp add: getVisibleNodes_def)
next
  case (Cons n ns)
  have kids: "map (nodeAt (pre @ n # ns)) (map (\<lambda>j. (length pre, Some j)) [0..<length (shownChildren n)])
        = shownChildren n"
    by (rule nth_equalityI) (simp_all add: shownChildren_nth)
  have "map (nodeAt ((pre @ [n]) @ ns)) (pathsFrom (length (pre @ [n])) ns) = getVisibleNodes ns"
    by (rule Cons.IH)
  then have rest: "map (nodeAt (pre @ n # ns)) (pathsFrom (Suc (length pre)) ns) = getVisibleNodes ns"
    by simp
  show ?case
    using kids rest by (simp add: getVisibleNodes_def)
qed

lemma getVisibleNodes_paths: "getVisibleNodes ns = map (nodeAt ns) (visiblePaths ns)"
  using getVisibleNodes_pathsFrom[of "[]" ns] by (simp add: visiblePaths_def)

lemma pathsFrom_collapsed:
  "\<forall>n\<in>set ns. shownChildren n = [] \<Longrightarrow>
     pathsFrom i ns = map (\<lambda>k. (k, None)) [i..<i + length ns]"
proof (induction ns arbitrary: i)
  case Nil
  show ?case by simp
next
  case (Cons n ns)
  then have "pathsFrom (Suc i) ns = map (\<lambda>k. (k, None)) [Suc i..<Suc i + length ns]"
    by (simp del: upt_Suc)
  with Cons.prems show ?case by (simp add: upt_conv_Cons del: upt_Suc)
qed

lemma child_paths_none:
  "(\<forall>p\<in>set (map (\<lambda>j. (i, Some j)) [0..<length cs]). snd p = None) \<longleftrightarrow> cs = []"
  by (cases cs) (auto simp: upt_conv_Cons)

lemma pathsFrom_no_child:
  "(\<forall>p\<in>set (pathsFrom i ns). snd p = None) \<longleftrightarrow> (\<forall>n\<in>set ns. shownChildren n = [])"
proof (induction ns arbitrary: i)
  case Nil
  show ?case by simp
next
  case (Cons n ns)
  show ?case
    using Cons.IH[of "Suc i"] child_paths_none[of i "shownChildren n"]
    by (simp add: ball_Un)
qed

lemma visiblePaths_top_level_iff:
  "visiblePaths ns = map (\<lambda>k. (k, None)) [0..<length ns] \<longleftrightarrow> (\<forall>n\<in>set ns. shownChildren n = [])"
proof
  assume "visiblePaths ns = map (\<lambda>k. (k, None)) [0..<length ns]"
  then have "\<forall>p\<in>set (pathsFrom 0 ns). snd p = None" by (auto simp: visiblePaths_def)
  then show "\<forall>n\<in>set ns. shownChildren n = []" by (simp only: pathsFrom_no_child)
next
  assume "\<forall>n\<in>set ns. shownChildren n = []"
  then show "visiblePaths ns = map (\<lambda>k. (k, None)) [0..<length ns]"
    using pathsFrom_collapsed[of ns 0] by (simp add: visiblePaths_def)
qed

lemma visiblePaths_collapse_all:
  "visiblePaths (map (setExpanded False) ns) = map (\<lambda>k. (k, None)) [0..<length ns]"
  using visiblePaths_top_level_iff[of "map (setExpanded False) ns"] by simp

lemma update_expand_all:
  "Update l m (KeyMsg ''e'') = Inr (m\<lparr> nodes := map (setExpanded True) (nodes m) \<rparr>, NoCmd)"
  by (simp add: Update_def)

lemma update_collapse_all:
  "Update l m (KeyMsg ''c'') = Inr (m\<lparr> nodes := map (setExpanded False) (nodes m) \<rparr>, NoCmd)"
  by (simp add: Update_def)

lemmas build_defs = NewModel_def mkResource_def buildTreeNodes_def
      moduleGroupsOf_def moduleKey_def ActionNoOp_def lookup_def moduleNodes_def rootNodes_def
      firstPass_def secondPass_def getResourceFileName_def ActionDelete_def ActionCreate_def
      indexMatches_def fileNode_def moduleNode_def leafNode_def groupResource_def

lemmas nav_defs = Update_def adjustViewport_def getVisibleNodes_def shownChildren_def
      nodeLines_def setExpanded_def Let_def cursorLineStart_def cursorLineEnd_def cursorInRange_def

lemma NewModel_three: "NewModel [res_a, res_c, res_d] = threeLeaves"
  by (simp add: threeLeaves_def res_a_def res_c_def res_d_def build_defs)

lemma NewModel_six:
  "NewModel sixResources =
     \<lparr> nodes = map (leafNode 0) sixResources, cursor = 0, viewMode = 0,
       viewportTop = 0, viewportSize = 20, width = 80, height = 24 \<rparr>"
  by (simp add: sixResources_def freshInstance_def build_defs)

lemma update_total: "0 \<le> cursor m \<Longrightarrow> \<exists>m' c. Update l m msg = Inr (m', c)"
  by (cases msg) (auto simp: Update_def)

lemma getVisibleNodes_Nil_iff [simp]: "getVisibleNodes ns = [] \<longleftrightarrow> ns = []"
  by (cases ns) (simp_all add: getVisibleNodes_def)

lemma getVisibleNodes_Nil [simp]: "getVisibleNodes [] = []"
  by (simp add: getVisibleNodes_def)

lemma toggleVisible_Nil_iff [simp]: "toggleVisible i ns = [] \<longleftrightarrow> ns = []"
  by (cases ns) simp_all

lemma length_visible_expand_all:
  "length (getVisibleNodes ns) \<le> length (getVisibleNodes (map (setExpanded True) ns))"
proof (induction ns)
  case Nil
  show ?case by simp
next
  case (Cons n ns)
  have "length (shownChildren n) \<le> length (shownChildren (setExpanded True n))"
    by (simp add: shownChildren_def setExpanded_def)
  with Cons show ?case by (simp add: getVisibleNodes_def)
qed

lemma adjustViewport_empty:
  "getVisibleNodes (nodes m) = [] \<Longrightarrow> adjustViewport l m = m\<lparr> viewportTop := 0 \<rparr>"
  by (simp add: adjustViewport_def)

lemma adjustViewport_valid:
  assumes "nodes m \<noteq> []"
  shows "validState (adjustViewport l m)"
proof -
  have ne: "getVisibleNodes (nodes m) \<noteq> []" using assms by simp
  have len: "0 < length (getVisibleNodes (nodes m))" using ne by simp
  show ?thesis
    unfolding adjustViewport_def Let_def validState_def cursorInRange_def
    using len by (auto simp del: length_greater_0_conv getVisibleNodes_Nil_iff)
qed

lemma update_keeps_valid:
  assumes v: "validState m"
    and u: "Update l m msg = Inr (m', cmd)"
    and nc: "msg \<noteq> KeyMsg ''c''"
    and nG: "msg = KeyMsg ''G'' \<longrightarrow> nodes m \<noteq> []"
  shows "validState m'"
proof (cases msg)
  case (WindowSizeMsg w h)
  with u v show ?thesis by (auto simp: Update_def validState_def cursorInRange_def)
next
  case (KeyMsg k)
  have rng: "cursor m > 0 \<Longrightarrow> nodes m \<noteq> []" "cursor m < int (length (getVisibleNodes (nodes m))) - 1 \<Longrightarrow> nodes m \<noteq> []"
    using v by (auto simp: validState_def cursorInRange_def)
  have c0: "0 \<le> cursor m" using v by (auto simp: validState_def cursorInRange_def)
  have zero: "validState (m\<lparr> cursor := 0, viewportTop := 0 \<rparr>)"
       "validState (m\<lparr> viewMode := vm, cursor := 0, viewportTop := 0 \<rparr>)" for vm
    by (auto simp: validState_def cursorInRange_def)
  have ex: "validState (m\<lparr> nodes := map (setExpanded True) (nodes m) \<rparr>)"
    using v length_visible_expand_all[of "nodes m"]
    by (auto simp: validState_def cursorInRange_def)
  have up: "validState (adjustViewport l (m\<lparr> cursor := cursor m - 1 \<rparr>))" if "cursor m > 0"
    using rng(1)[OF that] by (intro adjustViewport_valid) simp
  have down: "validState (adjustViewport l (m\<lparr> cursor := cursor m + 1 \<rparr>))"
    if "cursor m < int (length (getVisibleNodes (nodes m))) - 1"
    using rng(2)[OF that] by (intro adjustViewport_valid) simp
  have enter: "validState (adjustViewport l (m\<lparr> nodes := toggleVisible (nat (cursor m)) (nodes m) \<rparr>))"
    if "cursor m < int (length (getVisibleNodes (nodes m)))"
    using that c0 by (intro adjustViewport_valid) auto
  have bottom: "validState (adjustViewport l (m\<lparr> cursor := int (length (getVisibleNodes (nodes m))) - 1 \<rparr>))"
    if "nodes m \<noteq> []"
    using that by (intro adjustViewport_valid) simp
  have k0: ?thesis if "k = ''ctrl+c''"
    using u nG unfolding KeyMsg that
    by (simp add: Update_def split: if_splits) (use v up down enter bottom zero ex in blast)+
  have k1: ?thesis if "k = ''q''"
    using u nG unfolding KeyMsg that
    by (simp add: Update_def split: if_splits) (use v up down enter bottom zero ex in blast)+
  have k2: ?thesis if "k = ''up''"
    using u nG unfolding KeyMsg that
    by (simp add: Update_def split: if_splits) (use v up down enter bottom zero ex in blast)+
  have k3: ?thesis if "k = ''k''"
    using u nG unfolding KeyMsg that
    by (simp add: Update_def split: if_splits) (use v up down enter bottom zero ex in blast)+
  have k4: ?thesis if "k = ''down''"
    using u nG unfolding KeyMsg that
    by (simp add: Update_def split: if_splits) (use v up down enter bottom zero ex in blast)+
  have k5: ?thesis if "k = ''j''"
    using u nG unfolding KeyMsg that
    by (simp add: Update_def split: if_splits) (use v up down enter bottom zero ex in blast)+
  have k6: ?thesis if "k = ''enter''"
    using u nG unfolding KeyMsg that
    by (simp add: Update_def split: if_splits) (use v up down enter bottom zero ex in blast)+
  have k7: ?thesis if "k = '' ''"
    using u nG unfolding KeyMsg that
    by (simp add: Update_def split: if_splits) (use v up down enter bottom zero ex in blast)+
  have k8: ?thesis if "k = ''tab''"
    using u nG unfolding KeyMsg that
    by (simp add: Update_def split: if_splits) (use v up down enter bottom zero ex in blast)+
  have k9: ?thesis if "k = ''shift+tab''"
    using u nG unfolding KeyMsg that
    by (simp add: Update_def split: if_splits) (use v up down enter bottom zero ex in blast)+
  have k10: ?thesis if "k = ''g''"
    using u nG unfolding KeyMsg that
    by (simp add: Update_def split: if_splits) (use v up down enter bottom zero ex in blast)+
  have k11: ?thesis if "k = ''G''"
    using u nG unfolding KeyMsg that
    by (simp add: Update_def split: if_splits) (use v up down enter bottom zero ex in blast)+
  have k12: ?thesis if "k = ''e''"
    using u nG unfolding KeyMsg that
    by (simp add: Update_def split: if_splits) (use v up down enter bottom zero ex in blast)+
  have kc: "k \<noteq> ''c''" using nc KeyMsg by simp
  have other: ?thesis if "k \<noteq> ''ctrl+c'' \<and> k \<noteq> ''q'' \<and> k \<noteq> ''up'' \<and> k \<noteq> ''k'' \<and> k \<noteq> ''down'' \<and> k \<noteq> ''j'' \<and> k \<noteq> ''enter'' \<and> k \<noteq> '' '' \<and> k \<noteq> ''tab'' \<and> k \<noteq> ''shift+tab'' \<and> k \<noteq> ''g'' \<and> k \<noteq> ''G'' \<and> k \<noteq> ''e'' \<and> k \<noteq> ''c''"
    using u that v unfolding KeyMsg by (simp add: Update_def)
  show ?thesis
    using k0 k1 k2 k3 k4 k5 k6 k7 k8 k9 k10 k11 k12 kc other by argo
qed

lemma update_keeps_cursor_in_view:
  assumes r: "cursorInRange m" and iv: "cursorInView l m" and B: "1 \<le> viewportSize m"
    and u: "Update l m (KeyMsg k) = Inr (m', cmd)"
    and ne: "k \<noteq> ''e''" and nc: "k \<noteq> ''c''"
  shows "cursorInRange m' \<and> cursorInView l m'"
proof -
  have nodes: "nodes m \<noteq> []" using r by (auto simp: cursorInRange_def)
  have adj: "cursorInRange (adjustViewport l x) \<and> cursorInView l (adjustViewport l x)"
    if "nodes x \<noteq> []" "viewportSize x = viewportSize m" for x
    using adjustViewport_shows_cursor[of x l] that B by (simp add: cursorInView_def)
  have up: "cursorInRange (adjustViewport l (m\<lparr> cursor := cursor m - 1 \<rparr>))
      \<and> cursorInView l (adjustViewport l (m\<lparr> cursor := cursor m - 1 \<rparr>))"
    using nodes by (intro adj) simp_all
  have down: "cursorInRange (adjustViewport l (m\<lparr> cursor := cursor m + 1 \<rparr>))
      \<and> cursorInView l (adjustViewport l (m\<lparr> cursor := cursor m + 1 \<rparr>))"
    using nodes by (intro adj) simp_all
  have enter: "cursorInRange (adjustViewport l (m\<lparr> nodes := toggleVisible (nat (cursor m)) (nodes m) \<rparr>))
      \<and> cursorInView l (adjustViewport l (m\<lparr> nodes := toggleVisible (nat (cursor m)) (nodes m) \<rparr>))"
    using nodes by (intro adj) simp_all
  have bottom: "cursorInRange (adjustViewport l (m\<lparr> cursor := int (length (getVisibleNodes (nodes m))) - 1 \<rparr>))
      \<and> cursorInView l (adjustViewport l (m\<lparr> cursor := int (length (getVisibleNodes (nodes m))) - 1 \<rparr>))"
    using nodes by (intro adj) simp_all
  have zero: "cursorInRange (m\<lparr> cursor := 0, viewportTop := 0 \<rparr>)
      \<and> cursorInView l (m\<lparr> cursor := 0, viewportTop := 0 \<rparr>)"
    "cursorInRange (m\<lparr> viewMode := vm, cursor := 0, viewportTop := 0 \<rparr>)
      \<and> cursorInView l (m\<lparr> viewMode := vm, cursor := 0, viewportTop := 0 \<rparr>)" for vm
    using nodes B by (auto simp: cursorInRange_def cursorInView_def cursorLineStart_def)
  have same: "cursorInRange m \<and> cursorInView l m" using r iv by simp
  have k0: ?thesis if "k = ''ctrl+c''"
    using u unfolding that
    by (simp add: Update_def split: if_splits) (use same up down enter bottom zero in blast)+
  have k1: ?thesis if "k = ''q''"
    using u unfolding that
    by (simp add: Update_def split: if_splits) (use same up down enter bottom zero in blast)+
  have k2: ?thesis if "k = ''up''"
    using u unfolding that
    by (simp add: Update_def split: if_splits) (use same up down enter bottom zero in blast)+
  have k3: ?thesis if "k = ''k''"
    using u unfolding that
    by (simp add: Update_def split: if_splits) (use same up down enter bottom zero in blast)+
  have k4: ?thesis if "k = ''down''"
    using u unfolding that
    by (simp add: Update_def split: if_splits) (use same up down enter bottom zero in blast)+
  have k5: ?thesis if "k = ''j''"
    using u unfolding that
    by (simp add: Update_def split: if_splits) (use same up down enter bottom zero in blast)+
  have k6: ?thesis if "k = ''enter''"
    using u unfolding that
    by (simp add: Update_def split: if_splits) (use same up down enter bottom zero in blast)+
  have k7: ?thesis if "k = '' ''"
    using u unfolding that
    by (simp add: Update_def split: if_splits) (use same up down enter bottom zero in blast)+
  have k8: ?thesis if "k = ''tab''"
    using u unfolding that
    by (simp add: Update_def split: if_splits) (use same up down enter bottom zero in blast)+
  have k9: ?thesis if "k = ''shift+tab''"
    using u unfolding that
    by (simp add: Update_def split: if_splits) (use same up down enter bottom zero in blast)+
  have k10: ?thesis if "k = ''g''"
    using u unfolding that
    by (simp add: Update_def split: if_splits) (use same up down enter bottom zero in blast)+
  have k11: ?thesis if "k = ''G''"
    using u unfolding that
    by (simp add: Update_def split: if_splits) (use same up down enter bottom zero in blast)+
  have other: ?thesis if "k \<noteq> ''ctrl+c'' \<and> k \<noteq> ''q'' \<and> k \<noteq> ''up'' \<and> k \<noteq> ''k'' \<and> k \<noteq> ''down''
      \<and> k \<noteq> ''j'' \<and> k \<noteq> ''enter'' \<and> k \<noteq> '' '' \<and> k \<noteq> ''tab'' \<and> k \<noteq> ''shift+tab'' \<and> k \<noteq> ''g''
      \<and> k \<noteq> ''G'' \<and> k \<noteq> ''e'' \<and> k \<noteq> ''c''"
    using u that same by (simp add: Update_def)
  show ?thesis
    using k0 k1 k2 k3 k4 k5 k6 k7 k8 k9 k10 k11 ne nc other by argo
qed

section \<open>Properties of the forest\<close>

lemma addsI:
  assumes "\<And>ns nx. \<exists>ms k. step (ns, nx) = (ns @ ms, nx + k)
        \<and> map erase ms = new \<and> concat (map idents ms) = [nx..<nx + k]"
  shows "adds step new"
  using assms by (simp add: adds_def)

lemma addsD:
  assumes "adds step new"
  obtains ms k where "step (ns, nx) = (ns @ ms, nx + k)" "map erase ms = new"
    "concat (map idents ms) = [nx..<nx + k]"
  using assms unfolding adds_def by blast

lemma adds_id: "adds (\<lambda>st. st) []"
  by (rule addsI) simp

lemma adds_comp:
  assumes "adds f xs" "adds g ys"
  shows "adds (\<lambda>st. g (f st)) (xs @ ys)"
proof (rule addsI)
  fix ns nx
  from assms(1) obtain ms k where f: "f (ns, nx) = (ns @ ms, nx + k)"
    "map erase ms = xs" "concat (map idents ms) = [nx..<nx + k]"
    by (rule addsD)
  from assms(2) obtain ms' k' where g: "g (ns @ ms, nx + k) = ((ns @ ms) @ ms', (nx + k) + k')"
    "map erase ms' = ys" "concat (map idents ms') = [nx + k..<(nx + k) + k']"
    by (rule addsD)
  have "[nx..<nx + k] @ [nx + k..<nx + k + k'] = [nx..<nx + (k + k')]"
    by (metis add.assoc le_add1 upt_add_eq_append)
  with f g show "\<exists>ms'' k''. g (f (ns, nx)) = (ns @ ms'', nx + k'')
        \<and> map erase ms'' = xs @ ys \<and> concat (map idents ms'') = [nx..<nx + k'']"
    by (intro exI[of _ "ms @ ms'"] exI[of _ "k + k'"]) (simp add: add.assoc)
qed

lemma adds_foldl:
  assumes "\<And>x. x \<in> set xs \<Longrightarrow> adds (\<lambda>st. step st x) (new x)"
  shows "adds (\<lambda>st. foldl step st xs) (concat (map new xs))"
  using assms
proof (induction xs rule: rev_induct)
  case Nil
  show ?case by (simp add: adds_id)
next
  case (snoc x xs)
  have "adds (\<lambda>st. step (foldl step st xs) x) (concat (map new xs) @ new x)"
    by (rule adds_comp) (use snoc in auto)
  then show ?case by simp
qed

lemma adds_leaf:
  "adds (\<lambda>st. (fst st @ [LNode (snd st) res False [] lvl 0], Suc (snd st))) [leafNode lvl res]"
proof (rule addsI)
  fix ns nx
  show "\<exists>ms k. (fst (ns, nx) @ [LNode (snd (ns, nx)) res False [] lvl 0], Suc (snd (ns, nx)))
          = (ns @ ms, nx + k)
        \<and> map erase ms = [leafNode lvl res] \<and> concat (map idents ms) = [nx..<nx + k]"
    by (intro exI[of _ "[LNode nx res False [] lvl 0]"] exI[of _ 1]) (simp add: leafNode_def)
qed

lemma adds_newLeaves: "adds (newLeaves lvl rs) (map (leafNode lvl) rs)"
proof -
  have "adds (\<lambda>st. foldl (\<lambda>(ns, nx) res. (ns @ [LNode nx res False [] lvl 0], Suc nx)) st rs)
          (concat (map (\<lambda>res. [leafNode lvl res]) rs))"
    by (rule adds_foldl) (simp add: case_prod_beta adds_leaf)
  then show ?thesis by (simp add: newLeaves_def[abs_def])
qed

lemma adds_newGroup:
  "adds (newGroup header rs) [TreeNode header False (map (leafNode 1) rs) 0 0]"
proof (rule addsI)
  fix ns nx
  from adds_newLeaves[of 1 rs] obtain ms k where
    l: "newLeaves 1 rs ([], Suc nx) = ([] @ ms, Suc nx + k)" "map erase ms = map (leafNode 1) rs"
    "concat (map idents ms) = [Suc nx..<Suc nx + k]"
    by (rule addsD)
  show "\<exists>ms' k'. newGroup header rs (ns, nx) = (ns @ ms', nx + k')
      \<and> map erase ms' = [TreeNode header False (map (leafNode 1) rs) 0 0]
      \<and> concat (map idents ms') = [nx..<nx + k']"
    using l
    by (intro exI[of _ "[LNode nx header False ms 0 0]"] exI[of _ "Suc k"])
       (simp add: newGroup_def upt_conv_Cons)
qed

lemma adds_rootNodesL: "adds (rootNodesL rs) (rootNodes rs)"
proof -
  obtain fg1 ug1 where fp: "firstPass rs = (fg1, ug1)" by (cases "firstPass rs")
  obtain fg ug where sp: "secondPass rs fg1 ug1 = (fg, ug)" by (cases "secondPass rs fg1 ug1")
  let ?new = "\<lambda>fileName. let fileResources = lookup fg fileName in
                   if length fg = 1 \<and> length ug = 0
                   then map (leafNode 0) fileResources
                   else if length fileResources > 0 then [fileNode fileName fileResources]
                   else []"
  let ?step = "\<lambda>st fileName.
                   let fileResources = lookup fg fileName in
                   if length fg = 1 \<and> length ug = 0
                   then newLeaves 0 fileResources st
                   else if length fileResources > 0
                   then newGroup (groupResource ''file'' fileName ''root'' (hd fileResources))
                          fileResources st
                   else st"
  have step: "adds (\<lambda>st. ?step st f) (?new f)" for f
  proof (cases "length fg = 1 \<and> length ug = 0")
    case True
    then show ?thesis using adds_newLeaves[of 0 "lookup fg f"] by (simp add: Let_def)
  next
    case flat: False
    show ?thesis
    proof (cases "length (lookup fg f) > 0")
      case True
      show ?thesis
        unfolding Let_def if_not_P[OF flat] if_P[OF True] fileNode_def
        by (rule adds_newGroup)
    next
      case False
      show ?thesis
        unfolding Let_def if_not_P[OF flat] if_not_P[OF False]
        by (rule adds_id)
    qed
  qed
  have "adds (\<lambda>st. foldl ?step st (sort (map fst fg))) (concat (map ?new (sort (map fst fg))))"
    by (rule adds_foldl) (rule step)
  then have "adds (\<lambda>st. newLeaves 0 ug (foldl ?step st (sort (map fst fg))))
               (concat (map ?new (sort (map fst fg))) @ map (leafNode 0) ug)"
    by (rule adds_comp) (rule adds_newLeaves)
  then show ?thesis
    by (simp add: rootNodesL_def[abs_def] rootNodes_def fp sp Let_def)
qed

lemma adds_moduleNodesL: "adds (moduleNodesL m rs) (moduleNodes m rs)"
  using adds_rootNodesL[of rs] adds_id
    adds_newGroup[of "groupResource ''module'' m m (hd rs)" rs]
  by (simp add: moduleNodesL_def[abs_def] moduleNodes_def moduleNode_def)

lemma buildTreeNodesL_adds:
  "\<exists>ms k. buildTreeNodesL rs = (ms, k) \<and> map erase ms = buildTreeNodes rs
      \<and> concat (map idents ms) = [0..<k]"
proof -
  let ?g = "moduleGroupsOf (filter (\<lambda>res. Action res \<noteq> ActionNoOp) rs)"
  have "adds (\<lambda>st. foldl (\<lambda>st moduleName.
                  moduleNodesL moduleName (sort_key Address (lookup ?g moduleName)) st)
           st (sort (map fst ?g)))
          (concat (map (\<lambda>moduleName. moduleNodes moduleName (sort_key Address (lookup ?g moduleName)))
             (sort (map fst ?g))))"
    by (rule adds_foldl) (rule adds_moduleNodesL)
  then obtain ms k where "foldl (\<lambda>st moduleName.
                  moduleNodesL moduleName (sort_key Address (lookup ?g moduleName)) st)
           ([], 0) (sort (map fst ?g)) = ([] @ ms, 0 + k)"
     "map erase ms = concat (map (\<lambda>moduleName. moduleNodes moduleName (sort_key Address (lookup ?g moduleName)))
             (sort (map fst ?g)))" "concat (map idents ms) = [0..<0 + k]"
    by (rule addsD)
  then show ?thesis
    by (simp add: buildTreeNodesL_def buildTreeNodes_def Let_def)
qed

lemma Children_clearFlags: "Children (clearFlags n) = map clearFlags (Children n)"
  by (cases n) simp

lemma clearFlags_no_children: "Children (clearFlags c) = [] \<longleftrightarrow> Children c = []"
  by (simp add: Children_clearFlags)

lemma shallow_same_shape:
  assumes "map clearFlags ns = map clearFlags ns'" "shallow ns'"
  shows "shallow ns"
  unfolding shallow_def
proof (intro ballI)
  fix n c assume n: "n \<in> set ns" and c: "c \<in> set (Children n)"
  from n have "clearFlags n \<in> set (map clearFlags ns')" using assms(1) by (metis image_eqI set_map)
  then obtain n' where n': "n' \<in> set ns'" "clearFlags n = clearFlags n'" by auto
  then have "map clearFlags (Children n) = map clearFlags (Children n')"
    by (metis Children_clearFlags)
  with c have "clearFlags c \<in> set (map clearFlags (Children n'))" by (metis image_eqI set_map)
  then obtain c' where c': "c' \<in> set (Children n')" "clearFlags c = clearFlags c'" by auto
  with n' assms(2) have "Children c' = []" by (auto simp: shallow_def)
  with c' show "Children c = []" by (metis clearFlags_no_children)
qed

lemma visibleFrom_childless: "Children c = [] \<Longrightarrow> visibleFrom c = [c]"
  by (cases c) simp

lemma visibleFrom_shallow:
  assumes "\<forall>c\<in>set (Children n). Children c = []"
  shows "visibleFrom n = n # shownChildren n"
proof -
  have "(\<forall>c\<in>set cs. Children c = []) \<Longrightarrow> concat (map visibleFrom cs) = cs" for cs
    by (induction cs) (simp_all add: visibleFrom_childless)
  with assms have "concat (map visibleFrom (Children n)) = Children n" by blast
  then show ?thesis by (cases n) (simp add: shownChildren_def)
qed

lemma getVisibleNodes_shallow:
  "shallow ns \<Longrightarrow> getVisibleNodes ns = concat (map visibleFrom ns)"
  unfolding getVisibleNodes_def
  by (rule arg_cong[where f = concat]) (simp add: shallow_def visibleFrom_shallow)

lemma leafNode_fields [simp]:
  "Level (leafNode l r) = l" "Resource (leafNode l r) = r"
  by (simp_all add: leafNode_def)

lemma group_fields [simp]:
  "Level (fileNode f rs) = 0" "Children (fileNode f rs) = map (leafNode 1) rs"
  "Action (Resource (fileNode f rs)) = ActionNoOp"
  "Level (moduleNode m rs) = 0" "Children (moduleNode m rs) = map (leafNode 1) rs"
  "Action (Resource (moduleNode m rs)) = ActionNoOp"
  "Type (Resource (moduleNode m rs)) = ''module''"
  by (simp_all add: fileNode_def moduleNode_def groupResource_def)

lemma top_level_shape:
  assumes n: "n \<in> set (buildTreeNodes rs)"
  shows "Level n = 0
       \<and> (\<forall>c\<in>set (Children n). Level c = 1 \<and> Children c = [] \<and> changing (Resource c))
       \<and> (Children n \<noteq> [] \<longrightarrow> Action (Resource n) = ActionNoOp
              \<and> (Type (Resource n) = ''module'' \<or> Type (Resource n) = ''file''))
       \<and> (Children n = [] \<longrightarrow> changing (Resource n))"
proof -
  from n obtain m where m: "n \<in> set (moduleNodes m
      (sort_key Address (filter (\<lambda>r. moduleKey r = m) (filter changing rs))))"
    by (rule buildTreeNodes_cases)
  define xs where "xs = sort_key Address (filter (\<lambda>r. moduleKey r = m) (filter changing rs))"
  have ch: "\<forall>r\<in>set xs. changing r" by (simp add: xs_def)
  from moduleNodes_cases[OF m] consider
      (leaf) r where "r \<in> set xs" "n = leafNode 0 r"
    | (fgroup) f where "n = fileNode f (lookup (fileGroupsOf xs) f)" "lookup (fileGroupsOf xs) f \<noteq> []"
    | (modl) "n = moduleNode m xs" "xs \<noteq> []"
    unfolding xs_def by blast
  then show ?thesis
  proof cases
    case leaf
    with ch show ?thesis by simp
  next
    case fgroup
    have "\<forall>r\<in>set (lookup (fileGroupsOf xs) f). changing r"
      using ch set_lookup_fileGroupsOf[of xs f] by blast
    with fgroup show ?thesis by simp
  next
    case modl
    with ch show ?thesis by simp
  qed
qed

lemma shallow_buildTreeNodes: "shallow (buildTreeNodes rs)"
  using top_level_shape[of _ rs] by (simp add: shallow_def)

section \<open>Properties of the renderers\<close>
















lemma nested7_rendering:
  "renderValue plainLib (\<lambda>s. s) '''' ''k'' nested7 0 =
     ''k = ['' @ nl
     @ ''  [0] = ['' @ nl
     @ ''    [0] = ['' @ nl
     @ ''      [0] = ['' @ nl
     @ ''        [0] = ['' @ nl
     @ ''          [0] = ['' @ nl
     @ ''            [0] = <deeply nested>'' @ nl
     @ ''          ]'' @ nl
     @ ''        ]'' @ nl
     @ ''      ]'' @ nl
     @ ''    ]'' @ nl
     @ ''  ]'' @ nl
     @ '']'' @ nl"
  by code_simp

lemma diff_scenario:
  "renderAttributeDiff plainLib '''' [(''a'', JNum 1), (''b'', JNum 2)] [(''a'', JNum 1), (''c'', JNum 3)]
     = ''  - b = 2'' @ nl @ ''  + c = 3'' @ nl"
  by code_simp

lemma equal_values_elided: "renderDiffComparison l indent key v v 0 = ''''"
  by (simp add: renderDiffComparison_def)

lemma attribute_diff_keys:
  "renderAttributeDiff l indent before after =
     concat (map (\<lambda>k.
        case (map_of before k, map_of after k) of
          (None, Some a) \<Rightarrow> renderDiffValue l indent ''+'' k a (valueAddStyle l) 0
        | (Some b, None) \<Rightarrow> renderDiffValue l indent ''-'' k b (valueRemStyle l) 0
        | (Some b, Some a) \<Rightarrow> (if sprint_v b = sprint_v a then '''' else renderDiffComparison l indent k b a 0)
        | (None, None) \<Rightarrow> '''')
      (sorted_list_of_set (fst ` set before \<union> fst ` set after)))"
proof -
  have k: "sort (remdups (map fst before @ map fst after))
      = sorted_list_of_set (fst ` set before \<union> fst ` set after)"
    by (simp add: sorted_list_of_set_sort_remdups[symmetric])
  have "renderDiffComparison l indent k b a 0 = (if sprint_v b = sprint_v a then '''' else renderDiffComparison l indent k b a 0)" for k b a
    by (simp add: renderDiffComparison_def)
  then show ?thesis
    unfolding renderAttributeDiff_def Let_def k
    by (intro arg_cong[where f = concat] map_cong refl)
       (auto split: option.splits simp: equal_values_elided)
qed

subsection \<open>Claims about the tree builder\<close>

text \<open>
  Claim C1, as amended. For every input list: (1) the changing records met when the
  forest of \<open>buildTreeNodes\<close> is flattened depth-first are exactly the input records whose
  action is not \<open>no-op\<close>, each as often as in the input; (2) when the addresses of these
  records are distinct, the forest does not depend on the order of the input; (3) the
  children of a group node are a block sorted by address followed by a second block
  sorted by address; the second block holds only relocated deletes (records without a
  file that joined the file of their replacement), and is empty in a module group.
\<close>

theorem buildTreeNodes_records:
  "mset (recordsOf (buildTreeNodes rs)) = mset (filter changing rs)
   \<and> (mset rs' = mset rs \<and> distinct (map Address (filter changing rs))
        \<longrightarrow> buildTreeNodes rs' = buildTreeNodes rs)
   \<and> (\<forall>n\<in>set (buildTreeNodes rs). \<exists>ys zs.
          map Resource (Children n) = ys @ zs
          \<and> sorted (map Address ys) \<and> sorted (map Address zs)
          \<and> (\<forall>r\<in>set zs. Action r = ActionDelete \<and> getResourceFileName r = ''unknown.tf'')
          \<and> (Type (Resource n) = ''module'' \<longrightarrow> zs = []))"
proof (intro conjI impI ballI)
  show "mset (recordsOf (buildTreeNodes rs)) = mset (filter changing rs)"
    by (rule mset_recordsOf_buildTreeNodes)
next
  assume "mset rs' = mset rs \<and> distinct (map Address (filter changing rs))"
  then show "buildTreeNodes rs' = buildTreeNodes rs"
    using buildTreeNodes_perm[of rs' rs] by blast
next
  fix n assume "n \<in> set (buildTreeNodes rs)"
  then obtain m where n: "n \<in> set (moduleNodes m
      (sort_key Address (filter (\<lambda>r. moduleKey r = m) (filter changing rs))))"
    by (rule buildTreeNodes_cases)
  show "\<exists>ys zs. map Resource (Children n) = ys @ zs
          \<and> sorted (map Address ys) \<and> sorted (map Address zs)
          \<and> (\<forall>r\<in>set zs. Action r = ActionDelete \<and> getResourceFileName r = ''unknown.tf'')
          \<and> (Type (Resource n) = ''module'' \<longrightarrow> zs = [])"
    by (rule group_children_order[OF n]) simp
qed

theorem buildTreeNodes_records_witness:
  "mset [res_c, res_b] = mset [res_b, res_c]
   \<and> distinct (map Address (filter changing [res_b, res_c]))
   \<and> buildTreeNodes [res_c, res_b] = buildTreeNodes [res_b, res_c]
   \<and> mset (recordsOf (buildTreeNodes [res_b, res_c])) = mset [res_b, res_c]"
proof -
  have h: "mset [res_c, res_b] = mset [res_b, res_c]
           \<and> distinct (map Address (filter changing [res_b, res_c]))"
    by (simp add: res_b_def res_c_def mkResource_def changing_def ActionNoOp_def)
  have f: "filter changing [res_b, res_c] = [res_b, res_c]"
    by (simp add: res_b_def res_c_def mkResource_def changing_def ActionNoOp_def)
  from buildTreeNodes_records[of "[res_b, res_c]" "[res_c, res_b]"] h f
  show ?thesis by simp
qed

text \<open>The claim as stated fails: the relocated delete \<open>aws_instance.a\<close> is appended
  to the file group of \<open>main.tf\<close> after \<open>aws_instance.b\<close>.\<close>

theorem file_group_unsorted:
  "buildTreeNodes [res_a, res_b, res_c] = [fileNode ''main.tf'' [res_b, res_a], leafNode 0 res_c]
   \<and> \<not> sorted (map Address [res_b, res_a])"
  by (simp add: res_a_def res_b_def res_c_def mkResource_def buildTreeNodes_def
      moduleGroupsOf_def moduleKey_def ActionNoOp_def lookup_def moduleNodes_def rootNodes_def
      firstPass_def secondPass_def getResourceFileName_def ActionDelete_def ActionCreate_def
      indexMatches_def fileNode_def leafNode_def groupResource_def)

text \<open>
  Claim C6, as amended. \<open>indexMatches\<close> is total (no input makes it fail): two absent
  indices match, an absent index never matches a present one, and two present indices
  match exactly when their \<open>%v\<close> renderings are equal, whatever their types. When
  \<open>findReplacementFile\<close> finds a file for a record, some create record of the list has
  the same resource type, a matching index and that file, which is a known one.
\<close>

theorem replacement_pairing:
  "(indexMatches i j \<longleftrightarrow>
       (i = JNull \<and> j = JNull) \<or> (i \<noteq> JNull \<and> j \<noteq> JNull \<and> sprint_v i = sprint_v j))
   \<and> (findReplacementFile d rs \<noteq> '''' \<longrightarrow>
        (\<exists>c\<in>set rs. Action c = ActionCreate \<and> Type c = Type d
            \<and> indexMatches (Index c) (Index d)
            \<and> getResourceFileName c = findReplacementFile d rs
            \<and> getResourceFileName c \<noteq> ''unknown.tf''))"
  using findReplacementFile_found[of d rs] by (auto simp: indexMatches_def)

theorem replacement_pairing_witness:
  "findReplacementFile res_a [res_a, res_b] \<noteq> ''''
   \<and> (\<exists>c\<in>set [res_a, res_b]. Action c = ActionCreate \<and> Type c = Type res_a
         \<and> indexMatches (Index c) (Index res_a)
         \<and> getResourceFileName c = findReplacementFile res_a [res_a, res_b]
         \<and> getResourceFileName c \<noteq> ''unknown.tf'')"
proof -
  have h: "findReplacementFile res_a [res_a, res_b] \<noteq> ''''"
    by (simp add: res_a_def res_b_def mkResource_def ActionCreate_def indexMatches_def
        getResourceFileName_def)
  with replacement_pairing[of JNull JNull res_a "[res_a, res_b]"] show ?thesis by blast
qed

text \<open>The claim as stated fails: two absent indices match, and so do the number \<open>0\<close>
  and the string \<open>"0"\<close>.\<close>

theorem index_match_absent_and_mixed:
  "indexMatches JNull JNull \<and> indexMatches (JNum 0) (JStr ''0'')"
  by code_simp

text \<open>
  Claim C9, as amended. When every changing record belongs to the root module and lies
  in one and the same known file, the builder emits no header: the records stand at the
  top level (level 0), sorted by address. A module other than root always gets a header
  node with its records as children, also when it is the only group.
\<close>

theorem single_group_flattening:
  "((\<forall>r\<in>set rs. changing r \<longrightarrow> moduleKey r = ''root'' \<and> getResourceFileName r = f)
      \<and> f \<noteq> ''unknown.tf''
      \<longrightarrow> buildTreeNodes rs = map (leafNode 0) (sort_key Address (filter changing rs)))
   \<and> ((\<forall>r\<in>set rs. changing r \<longrightarrow> Module r = m) \<and> m \<noteq> '''' \<and> m \<noteq> ''root''
        \<and> filter changing rs \<noteq> []
      \<longrightarrow> buildTreeNodes rs = [moduleNode m (sort_key Address (filter changing rs))])"
  using buildTreeNodes_single_file[of rs f] buildTreeNodes_single_module[of rs m]
  by blast

theorem single_group_flattening_witness:
  "changing res_b \<and> moduleKey res_b = ''root'' \<and> getResourceFileName res_b = ''main.tf''
   \<and> buildTreeNodes [res_b] = map (leafNode 0) (sort_key Address (filter changing [res_b]))
   \<and> changing res_m \<and> Module res_m = ''m''
   \<and> buildTreeNodes [res_m] = [moduleNode ''m'' (sort_key Address (filter changing [res_m]))]"
proof -
  have h1: "changing res_b \<and> moduleKey res_b = ''root'' \<and> getResourceFileName res_b = ''main.tf''"
    by (simp add: res_b_def mkResource_def moduleKey_def getResourceFileName_def changing_def
        ActionNoOp_def)
  have h2: "changing res_m \<and> Module res_m = ''m''"
    by (simp add: res_m_def mkResource_def changing_def ActionNoOp_def)
  from single_group_flattening[of "[res_b]" "''main.tf''" "''m''"] h1
  have c1: "buildTreeNodes [res_b] = map (leafNode 0) (sort_key Address (filter changing [res_b]))"
    by simp
  from single_group_flattening[of "[res_m]" "''main.tf''" "''m''"] h2
  have c2: "buildTreeNodes [res_m] = [moduleNode ''m'' (sort_key Address (filter changing [res_m]))]"
    by simp
  from h1 h2 c1 c2 show ?thesis by blast
qed

text \<open>The claim as stated fails for a module: a single module group keeps its header.\<close>

theorem single_module_keeps_header:
  "buildTreeNodes [res_m] = [moduleNode ''m'' [res_m]]
   \<and> buildTreeNodes [res_m] \<noteq> [leafNode 0 res_m]"
  by (simp add: res_m_def mkResource_def buildTreeNodes_def moduleGroupsOf_def moduleKey_def
      ActionNoOp_def lookup_def moduleNodes_def moduleNode_def leafNode_def groupResource_def)


subsection \<open>Claims about navigation and viewport\<close>

text \<open>
  Claim C8, as amended. For a cursor that points at a visible node, \<open>adjustViewport\<close>
  sets the offset to the start line of the cursor's node when that line is above the
  window, to the smaller of that start line and (end line - budget + 1) when the end
  line is at or below the window, leaves it otherwise, and clamps it at 0. From cursor 0
  and offset 0, over a non-empty visible sequence of one-line nodes and with a budget
  \<open>B\<close> of at least one row, \<open>N\<close> move-down events end with the cursor at
  \<open>min N (len - 1)\<close> and the offset at \<open>max 0 (cursor - B + 1)\<close>.
\<close>

theorem viewport_update:
  "(cursorInRange m \<longrightarrow>
      viewportTop (adjustViewport l m) =
        max 0 (if cursorLineStart l m < viewportTop m then cursorLineStart l m
               else if cursorLineEnd l m \<ge> viewportTop m + viewportSize m
               then min (cursorLineStart l m) (cursorLineEnd l m - viewportSize m + 1)
               else viewportTop m))
   \<and> ((\<forall>n\<in>set (getVisibleNodes (nodes m)). nodeLines l n = 1)
        \<and> getVisibleNodes (nodes m) \<noteq> [] \<and> cursor m = 0 \<and> viewportTop m = 0
        \<and> 1 \<le> viewportSize m \<longrightarrow>
      (\<exists>m'. run l m (replicate N (KeyMsg ''down'')) = Inr m'
         \<and> cursor m' = min (int N) (int (length (getVisibleNodes (nodes m))) - 1)
         \<and> viewportTop m' = max 0 (cursor m' - viewportSize m + 1)))"
proof (intro conjI impI)
  assume "cursorInRange m"
  then show "viewportTop (adjustViewport l m) =
        max 0 (if cursorLineStart l m < viewportTop m then cursorLineStart l m
               else if cursorLineEnd l m \<ge> viewportTop m + viewportSize m
               then min (cursorLineStart l m) (cursorLineEnd l m - viewportSize m + 1)
               else viewportTop m)"
    by (simp add: adjustViewport_in_range)
next
  assume a: "(\<forall>n\<in>set (getVisibleNodes (nodes m)). nodeLines l n = 1)
        \<and> getVisibleNodes (nodes m) \<noteq> [] \<and> cursor m = 0 \<and> viewportTop m = 0
        \<and> 1 \<le> viewportSize m"
  then have "cursorInRange m" "viewportTop m = max 0 (cursor m - viewportSize m + 1)"
    by (auto simp: cursorInRange_def)
  with a downs_run[of m l N] show "\<exists>m'. run l m (replicate N (KeyMsg ''down'')) = Inr m'
         \<and> cursor m' = min (int N) (int (length (getVisibleNodes (nodes m))) - 1)
         \<and> viewportTop m' = max 0 (cursor m' - viewportSize m + 1)"
    by (simp add: downKey_def)
qed

theorem viewport_update_witness:
  "cursorInRange threeLeaves
   \<and> viewportTop (adjustViewport plainLib threeLeaves) = 0
   \<and> (\<exists>m'. run plainLib threeLeaves (replicate 2 (KeyMsg ''down'')) = Inr m'
          \<and> cursor m' = 2 \<and> viewportTop m' = 0)"
proof -
  have h1: "cursorInRange threeLeaves"
    by (simp add: threeLeaves_def nav_defs leafNode_def)
  have h2: "(\<forall>n\<in>set (getVisibleNodes (nodes threeLeaves)). nodeLines plainLib n = 1)
        \<and> getVisibleNodes (nodes threeLeaves) \<noteq> [] \<and> cursor threeLeaves = 0
        \<and> viewportTop threeLeaves = 0 \<and> 1 \<le> viewportSize threeLeaves"
    by (simp add: threeLeaves_def nav_defs leafNode_def)
  have v: "cursorLineStart plainLib threeLeaves = 0" "cursorLineEnd plainLib threeLeaves = 0"
    "length (getVisibleNodes (nodes threeLeaves)) = 3" "viewportTop threeLeaves = 0"
    "viewportSize threeLeaves = 20"
    by (simp_all add: threeLeaves_def nav_defs leafNode_def)
  from viewport_update[of threeLeaves plainLib 2] h1 h2 show ?thesis
    by (auto simp: v)
qed

text \<open>The claim as stated fails: with three one-line nodes and two rows, the second
  move-down finds the end line 2 at the lower edge of the window; the offset becomes 1,
  not the maximum of the start line 2 and 2 - 2 + 1.\<close>

theorem viewport_not_max:
  "run plainLib (NewModel [res_a, res_c, res_d]) [WindowSizeMsg 80 12, KeyMsg ''down'']
     = Inr twoRowsOneDown
   \<and> Update plainLib twoRowsOneDown (KeyMsg ''down'')
     = Inr (adjustViewport plainLib (twoRowsOneDown\<lparr> cursor := 2 \<rparr>), NoCmd)
   \<and> cursorLineStart plainLib (twoRowsOneDown\<lparr> cursor := 2 \<rparr>) = 2
   \<and> cursorLineEnd plainLib (twoRowsOneDown\<lparr> cursor := 2 \<rparr>) = 2
   \<and> viewportTop twoRowsOneDown + viewportSize twoRowsOneDown = 2
   \<and> viewportTop (adjustViewport plainLib (twoRowsOneDown\<lparr> cursor := 2 \<rparr>)) = 1
   \<and> max (cursorLineStart plainLib (twoRowsOneDown\<lparr> cursor := 2 \<rparr>))
         (cursorLineEnd plainLib (twoRowsOneDown\<lparr> cursor := 2 \<rparr>)
            - viewportSize twoRowsOneDown + 1) = 2"
  unfolding NewModel_three
  by (simp add: twoRowsOneDown_def threeLeaves_def nav_defs leafNode_def)

text \<open>
  Claim C2 says that after any sequence of navigation events the first line of the node
  under the cursor lies in the window. The code breaks it: expand-all and collapse-all
  change the lines of the nodes and do not call \<open>adjustViewport\<close>, which the toggle does
  after the same kind of change. Six top-level records, five move-downs, then expand-all:
  the cursor's node starts at line 25, the window is lines 0 to 19.
\<close>

theorem expand_all_hides_cursor:
  "run plainLib (NewModel sixResources)
      [KeyMsg ''down'', KeyMsg ''down'', KeyMsg ''down'', KeyMsg ''down'', KeyMsg ''down'',
       KeyMsg ''e''] = Inr sixExpanded
   \<and> cursorInRange sixExpanded
   \<and> cursorLineStart plainLib sixExpanded = 25
   \<and> viewportTop sixExpanded = 0 \<and> viewportSize sixExpanded = 20"
  unfolding NewModel_six
  by (simp add: sixExpanded_def sixResources_def freshInstance_def mkResource_def nav_defs
        leafNode_def renderResourceDetails_def getActionStyle_def plainLib_def pad_right_def
        renderAttributes_def)

text \<open>
  Claim C4 says that every transition leaves a valid state valid and that jump-bottom
  on an empty visible sequence is a no-op. The code breaks it: \<open>adjustViewport\<close> returns
  before its clamp of the cursor when nothing is visible, so jump-bottom leaves the
  cursor at -1, and the next toggle indexes the empty sequence at -1.
\<close>

theorem jump_bottom_on_empty:
  "Update plainLib (NewModel []) (KeyMsg ''G'') = Inr ((NewModel [])\<lparr> cursor := - 1 \<rparr>, NoCmd)
   \<and> run plainLib (NewModel []) [KeyMsg ''G'', KeyMsg ''enter''] = Inl IndexOutOfRange"
  by (simp add: build_defs nav_defs)

text \<open>
  Claim C5, as amended. Expand-all sets the flag of every top-level node, collapse-all
  clears it, and neither moves the cursor or the offset. After expand-all and then
  collapse-all the visible sequence is the sequence of the top-level nodes; it is the
  sequence that was visible before exactly when no top-level node with children was
  expanded before.
\<close>

theorem expand_collapse_all:
  "\<exists>m1 m2 m3.
      Update l m (KeyMsg ''e'') = Inr (m1, NoCmd) \<and> Update l m (KeyMsg ''c'') = Inr (m2, NoCmd)
    \<and> run l m [KeyMsg ''e'', KeyMsg ''c''] = Inr m3
    \<and> cursor m1 = cursor m \<and> viewportTop m1 = viewportTop m \<and> (\<forall>n\<in>set (nodes m1). Expanded n)
    \<and> cursor m2 = cursor m \<and> viewportTop m2 = viewportTop m \<and> (\<forall>n\<in>set (nodes m2). \<not> Expanded n)
    \<and> cursor m3 = cursor m \<and> viewportTop m3 = viewportTop m
    \<and> visiblePaths (nodes m3) = map (\<lambda>k. (k, None)) [0..<length (nodes m)]
    \<and> (visiblePaths (nodes m3) = visiblePaths (nodes m)
         \<longleftrightarrow> (\<forall>n\<in>set (nodes m). \<not> (Expanded n \<and> Children n \<noteq> [])))"
proof -
  let ?m1 = "m\<lparr> nodes := map (setExpanded True) (nodes m) \<rparr>"
  let ?m2 = "m\<lparr> nodes := map (setExpanded False) (nodes m) \<rparr>"
  have r: "run l m [KeyMsg ''e'', KeyMsg ''c''] = Inr ?m2"
    by (simp add: update_expand_all update_collapse_all comp_def)
  have p: "visiblePaths (nodes ?m2) = map (\<lambda>k. (k, None)) [0..<length (nodes m)]"
    by (simp add: visiblePaths_collapse_all)
  have q: "visiblePaths (nodes ?m2) = visiblePaths (nodes m)
         \<longleftrightarrow> (\<forall>n\<in>set (nodes m). \<not> (Expanded n \<and> Children n \<noteq> []))"
    unfolding p using visiblePaths_top_level_iff[of "nodes m"]
    by (simp add: shownChildren_def eq_commute[of "map (\<lambda>k. (k, None)) [0..<length (nodes m)]"])
  show ?thesis
    by (intro exI[of _ ?m1] exI[of _ ?m2] conjI update_expand_all update_collapse_all r p q)
       simp_all
qed

theorem expand_collapse_all_witness:
  "\<exists>m3. run plainLib threeLeaves [KeyMsg ''e'', KeyMsg ''c''] = Inr m3
      \<and> cursor m3 = 0
      \<and> visiblePaths (nodes m3) = [(0, None), (1, None), (2, None)]
      \<and> visiblePaths (nodes m3) = visiblePaths (nodes threeLeaves)"
proof -
  have h: "\<forall>n\<in>set (nodes threeLeaves). \<not> (Expanded n \<and> Children n \<noteq> [])"
    by (simp add: threeLeaves_def leafNode_def)
  have v: "cursor threeLeaves = 0" "[0..<length (nodes threeLeaves)] = [0, 1, 2]"
    by (simp_all add: threeLeaves_def upt_conv_Cons)
  from expand_collapse_all[of plainLib threeLeaves] obtain m3 where
    "run plainLib threeLeaves [KeyMsg ''e'', KeyMsg ''c''] = Inr m3"
    "cursor m3 = cursor threeLeaves"
    "visiblePaths (nodes m3) = map (\<lambda>k. (k, None)) [0..<length (nodes threeLeaves)]"
    "visiblePaths (nodes m3) = visiblePaths (nodes threeLeaves)
         \<longleftrightarrow> (\<forall>n\<in>set (nodes threeLeaves). \<not> (Expanded n \<and> Children n \<noteq> []))"
    by blast
  with h v show ?thesis by (intro exI[of _ m3]) simp
qed

text \<open>The claim as stated fails: with the module group expanded, the child is visible
  before expand-all and collapse-all, and no longer after.\<close>

theorem collapse_all_does_not_restore:
  "run plainLib (NewModel [res_m]) [KeyMsg ''enter''] = Inr moduleExpanded
   \<and> run plainLib moduleExpanded [KeyMsg ''e'', KeyMsg ''c''] = Inr (NewModel [res_m])
   \<and> visiblePaths (nodes moduleExpanded) = [(0, None), (0, Some 0)]
   \<and> visiblePaths (nodes (NewModel [res_m])) = [(0, None)]"
  by (simp add: moduleExpanded_def res_m_def build_defs nav_defs visiblePaths_def)

subsection \<open>Claims about the forest\<close>

text \<open>
  Claim C10. Every forest of \<open>buildTreeNodes\<close> has depth at most two: a top-level node
  has level 0, its children have level 1 and no children of their own; a node with
  children is a group header, with action \<open>no-op\<close> and type module or file, and a node
  without children carries a changing record. The node objects are allocated one by
  one and each is put into one list once: the objects of the forest, listed
  depth-first, are pairwise distinct, so no node is a child of two parents. Whatever
  the expansion flags are, \<open>getVisibleNodes\<close> is then the depth-first walk through the
  expanded branches.
\<close>

theorem forest_structure:
  "(\<forall>n\<in>set (buildTreeNodes rs).
       Level n = 0
     \<and> (\<forall>c\<in>set (Children n). Level c = 1 \<and> Children c = [] \<and> changing (Resource c))
     \<and> (Children n \<noteq> [] \<longrightarrow> Action (Resource n) = ActionNoOp
            \<and> (Type (Resource n) = ''module'' \<or> Type (Resource n) = ''file''))
     \<and> (Children n = [] \<longrightarrow> changing (Resource n)))
   \<and> (\<exists>ms k. buildTreeNodesL rs = (ms, k) \<and> map erase ms = buildTreeNodes rs
         \<and> distinct (concat (map idents ms)))
   \<and> (map clearFlags ns = map clearFlags (buildTreeNodes rs)
        \<longrightarrow> getVisibleNodes ns = concat (map visibleFrom ns))"
proof (intro conjI ballI impI)
  fix n assume "n \<in> set (buildTreeNodes rs)"
  from top_level_shape[OF this]
  show "Level n = 0"
    "\<And>c. c \<in> set (Children n) \<Longrightarrow> Level c = 1"
    "\<And>c. c \<in> set (Children n) \<Longrightarrow> Children c = []"
    "\<And>c. c \<in> set (Children n) \<Longrightarrow> changing (Resource c)"
    "Children n \<noteq> [] \<Longrightarrow> Action (Resource n) = ActionNoOp"
    "Children n \<noteq> [] \<Longrightarrow> Type (Resource n) = ''module'' \<or> Type (Resource n) = ''file''"
    "Children n = [] \<Longrightarrow> changing (Resource n)"
    by blast+
next
  from buildTreeNodesL_adds[of rs] obtain ms k where
    "buildTreeNodesL rs = (ms, k)" "map erase ms = buildTreeNodes rs"
    "concat (map idents ms) = [0..<k]" by blast
  then show "\<exists>ms k. buildTreeNodesL rs = (ms, k) \<and> map erase ms = buildTreeNodes rs
         \<and> distinct (concat (map idents ms))"
    by (intro exI[of _ ms] exI[of _ k]) simp
next
  assume "map clearFlags ns = map clearFlags (buildTreeNodes rs)"
  then have "shallow ns" using shallow_buildTreeNodes by (rule shallow_same_shape)
  then show "getVisibleNodes ns = concat (map visibleFrom ns)"
    by (rule getVisibleNodes_shallow)
qed

theorem forest_structure_witness:
  "buildTreeNodes [res_a, res_b, res_c] = [fileNode ''main.tf'' [res_b, res_a], leafNode 0 res_c]
   \<and> map clearFlags [setExpanded True (fileNode ''main.tf'' [res_b, res_a]), leafNode 0 res_c]
       = map clearFlags (buildTreeNodes [res_a, res_b, res_c])
   \<and> getVisibleNodes [setExpanded True (fileNode ''main.tf'' [res_b, res_a]), leafNode 0 res_c]
       = concat (map visibleFrom
           [setExpanded True (fileNode ''main.tf'' [res_b, res_a]), leafNode 0 res_c])
   \<and> (\<exists>ms k. buildTreeNodesL [res_a, res_b, res_c] = (ms, k)
         \<and> map erase ms = buildTreeNodes [res_a, res_b, res_c]
         \<and> distinct (concat (map idents ms)))"
proof -
  have b: "buildTreeNodes [res_a, res_b, res_c]
      = [fileNode ''main.tf'' [res_b, res_a], leafNode 0 res_c]"
    by (simp add: res_a_def res_b_def res_c_def build_defs)
  have h: "map clearFlags [setExpanded True (fileNode ''main.tf'' [res_b, res_a]), leafNode 0 res_c]
       = map clearFlags (buildTreeNodes [res_a, res_b, res_c])"
    unfolding b by (simp add: setExpanded_def fileNode_def leafNode_def)
  from forest_structure[of "[res_a, res_b, res_c]"
      "[setExpanded True (fileNode ''main.tf'' [res_b, res_a]), leafNode 0 res_c]"] b h
  show ?thesis by blast
qed


subsection \<open>Claims about the renderers\<close>



text \<open>
  Claim C3 says that a key present in both maps is elided when the two values are
  deep-equal and shown as changed otherwise. The code breaks it: the comparison that
  its comment calls deep compares the \<open>%v\<close> texts of the two values, and different
  values can have the same text. The one-element list of \<open>"x y"\<close> and the list of \<open>"x"\<close>
  and \<open>"y"\<close> both print as \<open>[x y]\<close>, so the change of this attribute is not shown.
\<close>

theorem changed_list_elided:
  "JArr [JStr ''x y''] \<noteq> JArr [JStr ''x'', JStr ''y'']
   \<and> sprint_v (JArr [JStr ''x y'']) = sprint_v (JArr [JStr ''x'', JStr ''y''])
   \<and> renderAttributeDiff plainLib ''    ''
        [(''tags'', JArr [JStr ''x y''])] [(''tags'', JArr [JStr ''x'', JStr ''y''])] = ''''"
  by (simp add: renderAttributeDiff_def renderDiffComparison_def)

end
